theory Spec2Isabelle
  imports Main "HOL-Library.Char_ord" "HOL-Library.List_Lexorder" "HOL-Library.Sublist"
begin

section \<open>Python strings and exceptions\<close>

text \<open>
  A Python \<open>str\<close> is modelled as a \<^typ>\<open>string\<close>, a list of characters. A \<^typ>\<open>char\<close> is
  a code point below 256, so the model covers the texts written in Latin-1; in that range
  the regular expression class \<open>\d\<close> is \<open>[0-9]\<close>, and \<open>str.lower\<close> changes the letters
  \<open>A-Z\<close> and the accented capitals \<open>0xC0-0xDE\<close> (without the sign \<open>0xD7\<close>) only.
  Characters and strings are compared by code point, as Python compares them.

  An exception is a value; its string is what \<open>str(e)\<close> gives.
\<close>

datatype exn =
    ValueError string
  | RuntimeError string
  | FileNotFoundError string
  | ValidationError string
  | OSError string
  | TimeoutExpired string
  | UnicodeDecodeError string

fun exn_str :: "exn \<Rightarrow> string" where
  "exn_str (ValueError m) = m"
| "exn_str (RuntimeError m) = m"
| "exn_str (FileNotFoundError m) = m"
| "exn_str (ValidationError m) = m"
| "exn_str (OSError m) = m"
| "exn_str (TimeoutExpired m) = m"
| "exn_str (UnicodeDecodeError m) = m"

definition is_digit :: "char \<Rightarrow> bool" where
  \<comment> \<open>the class \<open>\d\<close>\<close>
  "is_digit c = (CHR ''0'' \<le> c \<and> c \<le> CHR ''9'')"

definition is_lower_alnum :: "char \<Rightarrow> bool" where
  \<comment> \<open>the class \<open>[a-z0-9]\<close>\<close>
  "is_lower_alnum c = ((CHR ''a'' \<le> c \<and> c \<le> CHR ''z'') \<or> (CHR ''0'' \<le> c \<and> c \<le> CHR ''9''))"

definition is_ident_char :: "char \<Rightarrow> bool" where
  \<comment> \<open>the class \<open>[a-z0-9-]\<close>\<close>
  "is_ident_char c = (is_lower_alnum c \<or> c = CHR ''-'')"

definition lower_char :: "char \<Rightarrow> char" where
  "lower_char c =
     (if (CHR ''A'' \<le> c \<and> c \<le> CHR ''Z'') \<or> (CHR 0xC0 \<le> c \<and> c \<le> CHR 0xDE \<and> c \<noteq> CHR 0xD7)
      then char_of (of_char c + (32::nat)) else c)"

definition lower :: "string \<Rightarrow> string" where
  \<comment> \<open>\<open>s.lower()\<close>\<close>
  "lower s = map lower_char s"

definition replace_char :: "char \<Rightarrow> char \<Rightarrow> string \<Rightarrow> string" where
  \<comment> \<open>\<open>s.replace(a, b)\<close> for one-character strings \<open>a\<close> and \<open>b\<close>\<close>
  "replace_char a b s = map (\<lambda>c. if c = a then b else c) s"

definition lstrip :: "(char \<Rightarrow> bool) \<Rightarrow> string \<Rightarrow> string" where
  "lstrip P s = dropWhile P s"

definition rstrip :: "(char \<Rightarrow> bool) \<Rightarrow> string \<Rightarrow> string" where
  "rstrip P s = rev (dropWhile P (rev s))"

definition strip :: "(char \<Rightarrow> bool) \<Rightarrow> string \<Rightarrow> string" where
  \<comment> \<open>\<open>s.strip(chars)\<close>, the characters to strip given as a predicate\<close>
  "strip P s = rstrip P (lstrip P s)"

definition slice_to :: "string \<Rightarrow> int \<Rightarrow> string" where
  \<comment> \<open>the slice \<open>s[:k]\<close>: a negative \<open>k\<close> counts from the end\<close>
  "slice_to s k = (if k < 0 then take (nat (int (length s) + k)) s else take (nat k) s)"

fun split_on :: "char \<Rightarrow> string \<Rightarrow> string list" where
  \<comment> \<open>\<open>s.split(sep)\<close> for a one-character separator; the result is never empty\<close>
  "split_on sep [] = [[]]"
| "split_on sep (c # cs) =
     (if c = sep then [] # split_on sep cs
      else (case split_on sep cs of x # xs \<Rightarrow> (c # x) # xs | [] \<Rightarrow> [[c]]))"

definition digit_value :: "char \<Rightarrow> int" where
  "digit_value c = int (of_char c) - 48"

definition int_str :: "string \<Rightarrow> int" where
  \<comment> \<open>\<open>int(s)\<close> on a string of decimal digits\<close>
  "int_str s = foldl (\<lambda>a c. 10 * a + digit_value c) 0 s"

definition digit_char :: "nat \<Rightarrow> char" where
  "digit_char d = ''0123456789'' ! d"

fun str_nat :: "nat \<Rightarrow> string" where
  "str_nat n = (if n < 10 then [digit_char n] else str_nat (n div 10) @ [digit_char (n mod 10)])"

declare str_nat.simps [simp del]

definition str_int :: "int \<Rightarrow> string" where
  \<comment> \<open>\<open>str(n)\<close>, the format \<open>{n}\<close>\<close>
  "str_int n = (if n < 0 then CHR ''-'' # str_nat (nat (- n)) else str_nat (nat n))"

definition format_03d :: "int \<Rightarrow> string" where
  \<comment> \<open>the format \<open>{n:03d}\<close>: the sign first, then zeros up to the width 3\<close>
  "format_03d n =
     (if n < 0 then CHR ''-'' # replicate (2 - length (str_nat (nat (- n)))) CHR ''0'' @ str_nat (nat (- n))
      else replicate (3 - length (str_nat (nat n))) CHR ''0'' @ str_nat (nat n))"

section \<open>data_models.py: FeatureNumber\<close>

record FeatureNumber =
  number :: int
  formatted :: string

definition FeatureNumber_new :: "int \<Rightarrow> string \<Rightarrow> exn + FeatureNumber" where
  \<comment> \<open>the constructor with its validation: \<open>number\<close> in 1..999, \<open>formatted\<close> matching
      \<open>^\d{3}$\<close>, and \<open>formatted\<close> equal to \<open>{number:03d}\<close>\<close>
  "FeatureNumber_new n f =
     (if \<not> (1 \<le> n \<and> n \<le> 999) then Inl (ValidationError ''number'')
      else if \<not> (length f = 3 \<and> list_all is_digit f) then Inl (ValidationError ''formatted'')
      else if f \<noteq> format_03d n then Inl (ValidationError ''formatted must match number'')
      else Inr \<lparr>number = n, formatted = f\<rparr>)"

section \<open>worktree.py\<close>

subsection \<open>sanitize_feature_name\<close>

function collapse_hyphens :: "string \<Rightarrow> string" where
  \<comment> \<open>\<open>re.sub(r"-+", "-", s)\<close>: every maximal run of hyphens becomes one hyphen\<close>
  "collapse_hyphens [] = []"
| "collapse_hyphens (c # cs) =
     (if c = CHR ''-'' then c # collapse_hyphens (dropWhile (\<lambda>d. d = CHR ''-'') cs)
      else c # collapse_hyphens cs)"
  by pat_completeness auto
termination
  by (relation "measure length") (auto simp: length_dropWhile_le less_Suc_eq_le)

definition sanitize_feature_name :: "string \<Rightarrow> int \<Rightarrow> string" where
  "sanitize_feature_name name max_length =
     (let sanitized = lower name;
          sanitized = replace_char CHR ''_'' CHR ''-'' sanitized;
          sanitized = replace_char CHR '' '' CHR ''-'' sanitized;
          sanitized = map (\<lambda>c. if is_ident_char c then c else CHR ''-'') sanitized;
          sanitized = collapse_hyphens sanitized;
          sanitized = strip (\<lambda>c. c = CHR ''-'') sanitized
      in if int (length sanitized) > max_length
         then rstrip (\<lambda>c. c = CHR ''-'') (slice_to sanitized max_length)
         else sanitized)"

definition sanitize_feature_name_default :: "string \<Rightarrow> string" where
  \<comment> \<open>the call with the default \<open>max_length=50\<close>\<close>
  "sanitize_feature_name_default name = sanitize_feature_name name 50"

subsection \<open>get_next_feature_number\<close>

definition pattern_match :: "string \<Rightarrow> string option" where
  \<comment> \<open>\<open>re.compile(r"^(\d{3})-").match(s)\<close>: the group 1 of the match, if any\<close>
  "pattern_match s =
     (case s of
        a # b # c # d # _ \<Rightarrow>
          if is_digit a \<and> is_digit b \<and> is_digit c \<and> d = CHR ''-'' then Some [a, b, c] else None
      | _ \<Rightarrow> None)"

fun collect_feature_numbers :: "string list \<Rightarrow> int list" where
  \<comment> \<open>the loop over \<open>branches\<close> that fills \<open>feature_numbers\<close>\<close>
  "collect_feature_numbers [] = []"
| "collect_feature_numbers (branch # branches) =
     (let branch_name = last (split_on CHR ''/'' branch)
      in case pattern_match branch_name of
           Some g \<Rightarrow> int_str g # collect_feature_numbers branches
         | None \<Rightarrow> collect_feature_numbers branches)"

fun max_list :: "int list \<Rightarrow> int" where
  \<comment> \<open>\<open>max(xs)\<close>, called on a non-empty list only\<close>
  "max_list [] = 0"
| "max_list (x # xs) = fold max xs x"

definition get_next_feature_number :: "string list \<Rightarrow> exn + FeatureNumber" where
  "get_next_feature_number branches =
     (let feature_numbers = collect_feature_numbers branches;
          next_number = (if feature_numbers \<noteq> [] then max_list feature_numbers + 1 else 1)
      in if next_number > 999
         then Inl (ValueError (''Feature number '' @ str_int next_number @ '' exceeds maximum of 999''))
         else FeatureNumber_new next_number (format_03d next_number))"

subsection \<open>Identifiers and branch names, as the specification words them\<close>

fun no_double_hyphen :: "string \<Rightarrow> bool" where
  \<comment> \<open>no two consecutive hyphens\<close>
  "no_double_hyphen (c # d # cs) = (\<not> (c = CHR ''-'' \<and> d = CHR ''-'') \<and> no_double_hyphen (d # cs))"
| "no_double_hyphen _ = True"

definition matches_identifier :: "string \<Rightarrow> bool" where
  \<comment> \<open>the whole string matches \<open>^[a-z0-9]([a-z0-9-]*[a-z0-9])?$\<close>\<close>
  "matches_identifier s =
     (case s of
        [] \<Rightarrow> False
      | c # cs \<Rightarrow> is_lower_alnum c \<and>
          (cs = [] \<or> (list_all is_ident_char (butlast cs) \<and> is_lower_alnum (last cs))))"

definition clean :: "string \<Rightarrow> bool" where
  \<comment> \<open>only characters of \<open>[a-z0-9-]\<close>, no run of hyphens, no hyphen at either end\<close>
  "clean s = (list_all is_ident_char s \<and> no_double_hyphen s \<and>
              (s = [] \<or> (hd s \<noteq> CHR ''-'' \<and> last s \<noteq> CHR ''-'')))"

definition after_final_slash :: "string \<Rightarrow> string" where
  \<comment> \<open>the substring after the final \<open>/\<close>, the whole name when it has none\<close>
  "after_final_slash b = rev (takeWhile (\<lambda>c. c \<noteq> CHR ''/'') (rev b))"

definition three_digits_hyphen :: "string \<Rightarrow> bool" where
  \<comment> \<open>the name begins with exactly three digits, and a hyphen follows them\<close>
  "three_digits_hyphen r = (length (takeWhile is_digit r) = 3 \<and> take 1 (drop 3 r) = ''-'')"

definition leading_number :: "string \<Rightarrow> int" where
  \<comment> \<open>the number that the first three digits write\<close>
  "leading_number r = 100 * digit_value (r ! 0) + 10 * digit_value (r ! 1) + digit_value (r ! 2)"

definition matched_numbers :: "string list \<Rightarrow> int list" where
  "matched_numbers bs = map leading_number (filter three_digits_hyphen (map after_final_slash bs))"

definition zero_pad3 :: "int \<Rightarrow> string" where
  \<comment> \<open>the three decimal digits of a number from 0 to 999\<close>
  "zero_pad3 n = [digit_char (nat n div 100), digit_char (nat n div 10 mod 10), digit_char (nat n mod 10)]"

section \<open>External processes, paths and the trace of a run\<close>

text \<open>
  The version-control tool and the assistant are external processes. What
  \<open>subprocess.run\<close> gives for a command is supplied by the environment: the process
  completes with a return code and its two outputs, or the call raises
  \<open>FileNotFoundError\<close>, \<open>subprocess.TimeoutExpired\<close> or another \<open>OSError\<close>; each
  exception carries its message. With \<open>check=True\<close> a non-zero return code raises
  \<open>CalledProcessError\<close>.
\<close>

datatype proc_result =
    Completed (returncode: int) (stdout: string) (stderr: string)
  | NotFound string
  | TimedOut string
  | OSFailure string

type_synonym path = "string list"

definition is_space :: "char \<Rightarrow> bool" where
  \<comment> \<open>\<open>c.isspace()\<close> for a code point below 256\<close>
  "is_space c = (c \<in> set [CHR 0x09, CHR 0x0A, CHR 0x0B, CHR 0x0C, CHR 0x0D, CHR 0x1C, CHR 0x1D,
                           CHR 0x1E, CHR 0x1F, CHR 0x20, CHR 0x85, CHR 0xA0])"

definition starts_with :: "string \<Rightarrow> string \<Rightarrow> bool" where
  \<comment> \<open>\<open>s.startswith(p)\<close>\<close>
  "starts_with p s = (take (length p) s = p)"

fun contains :: "string \<Rightarrow> string \<Rightarrow> bool" where
  \<comment> \<open>\<open>sub in s\<close>\<close>
  "contains sub [] = (sub = [])"
| "contains sub (c # cs) = (starts_with sub (c # cs) \<or> contains sub cs)"

fun join :: "string \<Rightarrow> string list \<Rightarrow> string" where
  \<comment> \<open>\<open>sep.join(xs)\<close>\<close>
  "join sep [] = []"
| "join sep [x] = x"
| "join sep (x # y # ys) = x @ sep @ join sep (y # ys)"

text \<open>
  A \<open>pathlib.Path\<close> on a POSIX system is the tuple of its parts: the anchor \<open>/\<close> (or
  \<open>//\<close>) first when the path is absolute, then the components; empty components and
  \<open>.\<close> are dropped when the path is built.
\<close>

definition is_anchor :: "string \<Rightarrow> bool" where
  "is_anchor a = (a = ''/'' \<or> a = ''//'')"

definition Path :: "string \<Rightarrow> path" where
  "Path s =
     (let comps = filter (\<lambda>c. c \<noteq> [] \<and> c \<noteq> ''.'') (split_on CHR ''/'' s)
      in if starts_with ''//'' s \<and> \<not> starts_with ''///'' s then ''//'' # comps
         else if starts_with ''/'' s then ''/'' # comps
         else comps)"

definition path_str :: "path \<Rightarrow> string" where
  \<comment> \<open>\<open>str(p)\<close>\<close>
  "path_str p =
     (case p of
        [] \<Rightarrow> ''.''
      | a # rest \<Rightarrow> if is_anchor a then a @ join ''/'' rest else join ''/'' (a # rest))"

definition joinpath :: "path \<Rightarrow> string \<Rightarrow> path" where
  \<comment> \<open>\<open>p / s\<close>: an absolute \<open>s\<close> replaces \<open>p\<close>\<close>
  "joinpath p s =
     (let q = Path s
      in case q of a # _ \<Rightarrow> (if is_anchor a then q else p @ q) | [] \<Rightarrow> p)"

definition parent :: "path \<Rightarrow> path" where
  \<comment> \<open>\<open>p.parent\<close>: the anchor and the empty path are their own parents\<close>
  "parent p = (case p of [] \<Rightarrow> [] | [a] \<Rightarrow> (if is_anchor a then [a] else []) | _ \<Rightarrow> butlast p)"

text \<open>
  A run leaves a trace: the calls of the collaborator functions (the functions of the
  other modules that a pipeline can call), the external commands run (with the working
  directory given to \<open>subprocess.run\<close>, if any), and the lines written. Every line that \<open>cli\<close> writes to the standard output starts with a check mark
  and a space; \<open>Progress\<close> holds the rest of the line. \<open>Err\<close> is a line on the standard
  error.
\<close>

datatype collaborator =
    C_validate_git_installed
  | C_is_git_repository
  | C_get_repo_root
  | C_get_main_branch
  | C_is_spec_kit_initialized
  | C_is_claude_code_installed
  | C_git_fetch
  | C_list_all_branches
  | C_create_worktree
  | C_copy_env_files_to_worktree
  | C_launch_claude_code

datatype event =
    Call collaborator
  | Run "string option" "string list"
  | Progress string
  | Err string

datatype outcome = Exit int | Uncaught exn

type_synonym 'a traced = "event list \<times> 'a"

definition pre :: "event list \<Rightarrow> 'a traced \<Rightarrow> 'a traced" where
  \<comment> \<open>the events that happened before a computation\<close>
  "pre evs r = (evs @ fst r, snd r)"

definition calls :: "event list \<Rightarrow> collaborator list" where
  "calls tr = concat (map (\<lambda>e. case e of Call c \<Rightarrow> [c] | _ \<Rightarrow> []) tr)"

record env =
  cwd :: path
  run :: "string option \<Rightarrow> string list \<Rightarrow> proc_result"
  gitignore :: "path \<Rightarrow> (exn + string) option"

section \<open>data_models.py: FeatureRequest, ValidationResult, WorktreeConfig\<close>

definition isalnum :: "char \<Rightarrow> bool" where
  \<comment> \<open>\<open>c.isalnum()\<close> for a code point below 256: the letters, the digits and the numeric
      characters of Latin-1\<close>
  "isalnum c =
     ((CHR ''0'' \<le> c \<and> c \<le> CHR ''9'') \<or> (CHR ''A'' \<le> c \<and> c \<le> CHR ''Z'') \<or>
      (CHR ''a'' \<le> c \<and> c \<le> CHR ''z'') \<or>
      c \<in> set [CHR 0xAA, CHR 0xB2, CHR 0xB3, CHR 0xB5, CHR 0xB9, CHR 0xBA, CHR 0xBC, CHR 0xBD, CHR 0xBE] \<or>
      (CHR 0xC0 \<le> c \<and> c \<noteq> CHR 0xD7 \<and> c \<noteq> CHR 0xF7))"

text \<open>
  The fields of \<open>FeatureRequest\<close> and of \<open>WorktreeConfig\<close> carry a prefix, as \<open>cli\<close> has
  local variables of the same names.
\<close>

record FeatureRequest =
  fr_text :: string
  fr_sanitized_name :: string
  fr_max_length :: int

definition FeatureRequest_new :: "string \<Rightarrow> string \<Rightarrow> exn + FeatureRequest" where
  \<comment> \<open>the constructor with its validation: \<open>text\<close> of 1 to 500 characters,
      \<open>sanitized_name\<close> of 1 to 50 characters, each alphanumeric or a hyphen; \<open>max_length\<close>
      takes its default. The exception's string stands for the report of the validation
      library.\<close>
  "FeatureRequest_new t s =
     (if length t < 1 \<or> length t > 500 then Inl (ValidationError ''text'')
      else if length s < 1 \<or> length s > 50 then Inl (ValidationError ''sanitized_name'')
      else if \<not> list_all (\<lambda>c. isalnum c \<or> c = CHR ''-'') s
        then Inl (ValidationError ''Sanitized name must contain only alphanumeric and hyphens'')
      else Inr \<lparr>fr_text = t, fr_sanitized_name = s, fr_max_length = 50\<rparr>)"

record ValidationResult =
  check_name :: string
  passed :: bool
  error_message :: "string option"
  suggestion :: "string option"

record WorktreeConfig =
  wc_branch_name :: string
  wc_directory_path :: path
  wc_base_branch :: string
  wc_feature_number :: FeatureNumber
  wc_feature_request :: FeatureRequest

definition WorktreeConfig_new ::
  "string \<Rightarrow> path \<Rightarrow> string \<Rightarrow> FeatureNumber \<Rightarrow> FeatureRequest \<Rightarrow> exn + WorktreeConfig" where
  \<comment> \<open>the constructor: its fields carry no constraint, and the two models it is given
      are instances already validated\<close>
  "WorktreeConfig_new b d base n r =
     Inr \<lparr>wc_branch_name = b, wc_directory_path = d, wc_base_branch = base,
          wc_feature_number = n, wc_feature_request = r\<rparr>"

section \<open>git_operations.py\<close>

definition strip_ws :: "string \<Rightarrow> string" where
  \<comment> \<open>\<open>s.strip()\<close>\<close>
  "strip_ws s = strip is_space s"

definition is_git_repository :: "env \<Rightarrow> path \<Rightarrow> (exn + bool) traced" where
  "is_git_repository e p =
     (let argv = [''git'', ''-C'', path_str p, ''rev-parse'', ''--is-inside-work-tree'']
      in ([Call C_is_git_repository, Run None argv],
          case run e None argv of
            Completed rc out err \<Rightarrow> Inr (rc = 0 \<and> strip_ws out = ''true'')
          | NotFound m \<Rightarrow> Inr False
          | TimedOut m \<Rightarrow> Inr False
          | OSFailure m \<Rightarrow> Inl (OSError m)))"

definition get_repo_root :: "env \<Rightarrow> (exn + path) traced" where
  \<open>get_repo_root e =
     (let argv = [''git'', ''rev-parse'', ''--show-toplevel'']
      in ([Call C_get_repo_root, Run None argv],
          case run e None argv of
            Completed rc out err \<Rightarrow>
              if rc = 0 then Inr (Path (strip_ws out))
              else if contains ''not a git repository'' (lower err)
                then Inl (RuntimeError ''not a git repository'')
              else Inl (RuntimeError (''Git operation failed: '' @ err))
          | NotFound m \<Rightarrow> Inl (RuntimeError (''Git operation failed: '' @ m))
          | TimedOut m \<Rightarrow> Inl (RuntimeError (''Git operation failed: '' @ m))
          | OSFailure m \<Rightarrow> Inl (OSError m)))\<close>

definition get_main_branch :: "env \<Rightarrow> (exn + string) traced" where
  \<comment> \<open>only \<open>CalledProcessError\<close> is caught here: the other exceptions leave the function\<close>
  \<open>get_main_branch e =
     (let argv_main = [''git'', ''rev-parse'', ''--verify'', ''main''];
          argv_master = [''git'', ''rev-parse'', ''--verify'', ''master'']
      in case run e None argv_main of
           Completed rc out err \<Rightarrow>
             if rc = 0 then ([Call C_get_main_branch, Run None argv_main], Inr ''main'')
             else ([Call C_get_main_branch, Run None argv_main, Run None argv_master],
                   case run e None argv_master of
                     Completed rc' out' err' \<Rightarrow>
                       if rc' = 0 then Inr ''master''
                       else Inl (RuntimeError ''neither 'main' nor 'master' branch found'')
                   | NotFound m \<Rightarrow> Inl (FileNotFoundError m)
                   | TimedOut m \<Rightarrow> Inl (TimeoutExpired m)
                   | OSFailure m \<Rightarrow> Inl (OSError m))
         | NotFound m \<Rightarrow> ([Call C_get_main_branch, Run None argv_main], Inl (FileNotFoundError m))
         | TimedOut m \<Rightarrow> ([Call C_get_main_branch, Run None argv_main], Inl (TimeoutExpired m))
         | OSFailure m \<Rightarrow> ([Call C_get_main_branch, Run None argv_main], Inl (OSError m)))\<close>

definition git_fetch :: "env \<Rightarrow> (exn + bool) traced" where
  "git_fetch e =
     (let argv = [''git'', ''fetch'']
      in ([Call C_git_fetch, Run None argv],
          case run e None argv of
            Completed rc out err \<Rightarrow> Inr (rc = 0)
          | NotFound m \<Rightarrow> Inr False
          | TimedOut m \<Rightarrow> Inr False
          | OSFailure m \<Rightarrow> Inl (OSError m)))"

definition list_all_branches :: "env \<Rightarrow> (exn + string list) traced" where
  "list_all_branches e =
     (let argv = [''git'', ''branch'', ''-a'', ''--format=%(refname:short)'']
      in ([Call C_list_all_branches, Run None argv],
          case run e None argv of
            Completed rc out err \<Rightarrow>
              if rc = 0 then Inr (filter (\<lambda>b. b \<noteq> []) (split_on CHR 0x0A (strip_ws out)))
              else Inr []
          | NotFound m \<Rightarrow> Inr []
          | TimedOut m \<Rightarrow> Inr []
          | OSFailure m \<Rightarrow> Inl (OSError m)))"

definition create_worktree :: "env \<Rightarrow> path \<Rightarrow> string \<Rightarrow> string \<Rightarrow> (exn + bool) traced" where
  "create_worktree e p branch base =
     (let argv = [''git'', ''worktree'', ''add'', path_str p, ''-b'', branch, base]
      in ([Call C_create_worktree, Run None argv],
          case run e None argv of
            Completed rc out err \<Rightarrow>
              if rc = 0 then Inr True
              else if contains ''already exists'' err
                then Inl (RuntimeError (''Branch or worktree already exists: '' @ err))
              else if contains ''Permission denied'' err
                then Inl (RuntimeError (''Permission denied: '' @ err))
              else Inl (RuntimeError (''Git worktree creation failed: '' @ err))
          | NotFound m \<Rightarrow> Inl (RuntimeError (''Git worktree creation failed: '' @ m))
          | TimedOut m \<Rightarrow> Inl (RuntimeError (''Git worktree creation failed: '' @ m))
          | OSFailure m \<Rightarrow> Inl (OSError m)))"

section \<open>validators.py\<close>

definition is_linebreak :: "char \<Rightarrow> bool" where
  \<comment> \<open>the line boundaries of \<open>str.splitlines\<close> below 256\<close>
  "is_linebreak c = (c \<in> set [CHR 0x0A, CHR 0x0B, CHR 0x0C, CHR 0x0D, CHR 0x1C, CHR 0x1D, CHR 0x1E, CHR 0x85])"

fun splitlines_from :: "string \<Rightarrow> string \<Rightarrow> string list" where
  \<comment> \<open>the lines of the text, the line being read given reversed\<close>
  "splitlines_from cur [] = (if cur = [] then [] else [rev cur])"
| "splitlines_from cur [c] = (if is_linebreak c then [rev cur] else [rev (c # cur)])"
| "splitlines_from cur (c # d # cs) =
     (if c = CHR 0x0D \<and> d = CHR 0x0A then rev cur # splitlines_from [] cs
      else if is_linebreak c then rev cur # splitlines_from [] (d # cs)
      else splitlines_from (c # cur) (d # cs))"

definition splitlines :: "string \<Rightarrow> string list" where
  \<comment> \<open>\<open>s.splitlines()\<close>\<close>
  "splitlines s = splitlines_from [] s"

definition validate_git_installed :: "env \<Rightarrow> (exn + ValidationResult) traced" where
  \<comment> \<open>\<open>validators.is_git_installed\<close>, which \<open>cli\<close> imports under this name\<close>
  "validate_git_installed e =
     (let argv = [''git'', ''--version''];
          failed = \<lparr>check_name = ''git_installed'', passed = False,
                    error_message = Some ''Git is not installed or not in PATH'',
                    suggestion = Some ''Install git: https://git-scm.com/downloads''\<rparr>
      in ([Call C_validate_git_installed, Run None argv],
          case run e None argv of
            Completed rc out err \<Rightarrow>
              if rc = 0
              then Inr \<lparr>check_name = ''git_installed'', passed = True,
                        error_message = None, suggestion = None\<rparr>
              else Inr failed
          | NotFound m \<Rightarrow> Inr failed
          | TimedOut m \<Rightarrow> Inr failed
          | OSFailure m \<Rightarrow> Inl (OSError m)))"

definition gitignore_excludes :: "string \<Rightarrow> bool" where
  \<comment> \<open>some line of the ignore file, stripped, names the scaffold directory\<close>
  "gitignore_excludes content =
     list_ex (\<lambda>line. let line = strip_ws line
                     in line \<in> set [''.specify/'', ''.specify'', ''.specify/*''] \<or>
                        starts_with ''.specify/'' line)
       (splitlines content)"

fun check_required_paths ::
  "env \<Rightarrow> path \<Rightarrow> string \<Rightarrow> string list \<Rightarrow> (exn + ValidationResult) traced" where
  \<comment> \<open>the loop over \<open>required_paths\<close>\<close>
  "check_required_paths e repo_path main_branch [] =
     ([], Inr \<lparr>check_name = ''spec_kit_on_main'', passed = True,
               error_message = None, suggestion = None\<rparr>)"
| "check_required_paths e repo_path main_branch (git_path # rest) =
     (let argv = [''git'', ''ls-tree'', git_path]
      in case run e (Some (path_str repo_path)) argv of
           Completed rc out err \<Rightarrow>
             if rc \<noteq> 0 \<or> strip_ws out = []
             then ([Run (Some (path_str repo_path)) argv],
                   Inr \<lparr>check_name = ''spec_kit_on_main'', passed = False,
                        error_message = Some (''Spec Kit incomplete on '' @ main_branch @ '' branch ('' @
                                              last (split_on CHR '':'' git_path) @ '' missing)''),
                        suggestion = Some (''Run 'specify init .' and commit to '' @ main_branch @ '' branch'')\<rparr>)
             else pre [Run (Some (path_str repo_path)) argv]
                    (check_required_paths e repo_path main_branch rest)
         | TimedOut m \<Rightarrow>
             ([Run (Some (path_str repo_path)) argv],
              Inr \<lparr>check_name = ''spec_kit_on_main'', passed = False,
                   error_message = Some (''Could not verify Spec Kit structure on '' @ main_branch @ '' branch''),
                   suggestion = Some ''Ensure git is working properly''\<rparr>)
         | NotFound m \<Rightarrow> ([Run (Some (path_str repo_path)) argv], Inl (FileNotFoundError m))
         | OSFailure m \<Rightarrow> ([Run (Some (path_str repo_path)) argv], Inl (OSError m)))"

definition check_spec_kit_on_branch ::
  "env \<Rightarrow> path \<Rightarrow> string \<Rightarrow> (exn + ValidationResult) traced" where
  \<comment> \<open>the part of \<open>is_spec_kit_initialized\<close> after the ignore file: the scaffold as
      committed on the main branch\<close>
  "check_spec_kit_on_branch e repo_path main_branch =
     (let argv = [''git'', ''show'', main_branch @ '':.specify/memory/constitution.md''];
          required_paths = [main_branch @ '':.specify/templates'', main_branch @ '':.specify/scripts'']
      in case run e (Some (path_str repo_path)) argv of
           Completed rc out err \<Rightarrow>
             if rc \<noteq> 0
             then ([Run (Some (path_str repo_path)) argv],
                   Inr \<lparr>check_name = ''spec_kit_on_main'', passed = False,
                        error_message = Some (''Spec Kit not found on '' @ main_branch @ '' branch''),
                        suggestion = Some (''Ensure Spec Kit is initialized and committed to '' @ main_branch @
                                           '' branch before creating feature worktrees'')\<rparr>)
             else pre [Run (Some (path_str repo_path)) argv]
                    (check_required_paths e repo_path main_branch required_paths)
         | TimedOut m \<Rightarrow>
             ([Run (Some (path_str repo_path)) argv],
              Inr \<lparr>check_name = ''spec_kit_on_main'', passed = False,
                   error_message = Some (''Could not verify Spec Kit on '' @ main_branch @ '' branch''),
                   suggestion = Some ''Ensure git is working and you have network access''\<rparr>)
         | NotFound m \<Rightarrow> ([Run (Some (path_str repo_path)) argv], Inl (FileNotFoundError m))
         | OSFailure m \<Rightarrow> ([Run (Some (path_str repo_path)) argv], Inl (OSError m)))"

definition is_spec_kit_initialized ::
  "env \<Rightarrow> path \<Rightarrow> string \<Rightarrow> (exn + ValidationResult) traced" where
  "is_spec_kit_initialized e repo_path main_branch =
     pre [Call C_is_spec_kit_initialized]
       (case gitignore e (joinpath repo_path ''.gitignore'') of
          Some (Inl x) \<Rightarrow> ([], Inl x)
        | Some (Inr content) \<Rightarrow>
            if gitignore_excludes content
            then ([], Inr \<lparr>check_name = ''spec_kit_on_main'', passed = False,
                           error_message = Some ''Spec Kit (.specify/) is listed in .gitignore'',
                           suggestion = Some (''Remove .specify/ from .gitignore to allow committing '' @
                                              ''Spec Kit to the repository'')\<rparr>)
            else check_spec_kit_on_branch e repo_path main_branch
        | None \<Rightarrow> check_spec_kit_on_branch e repo_path main_branch)"

definition is_claude_code_installed :: "env \<Rightarrow> (exn + ValidationResult) traced" where
  "is_claude_code_installed e =
     (let argv = [''claude'', ''--version''];
          failed = \<lparr>check_name = ''claude_code_installed'', passed = False,
                    error_message = Some ''Claude Code not found in PATH'',
                    suggestion = Some ''Install Claude Code or add to PATH''\<rparr>
      in ([Call C_is_claude_code_installed, Run None argv],
          case run e None argv of
            Completed rc out err \<Rightarrow>
              if rc = 0
              then Inr \<lparr>check_name = ''claude_code_installed'', passed = True,
                        error_message = None, suggestion = None\<rparr>
              else Inr failed
          | NotFound m \<Rightarrow> Inr failed
          | TimedOut m \<Rightarrow> Inr failed
          | OSFailure m \<Rightarrow> Inl (OSError m)))"

section \<open>claude.py\<close>

definition launch_claude_code :: "env \<Rightarrow> path \<Rightarrow> string \<Rightarrow> int traced" where
  \<comment> \<open>the return code of the session, or 4 when the call raises\<close>
  "launch_claude_code e worktree_path feature_req =
     (let initial_message = ''/specify '' @ feature_req;
          argv = [''claude'', initial_message]
      in ([Call C_launch_claude_code, Run (Some (path_str worktree_path)) argv],
          case run e (Some (path_str worktree_path)) argv of
            Completed rc out err \<Rightarrow> rc
          | NotFound m \<Rightarrow> 4
          | TimedOut m \<Rightarrow> 4
          | OSFailure m \<Rightarrow> 4))"

section \<open>cli.py\<close>

definition opt_str :: "string option \<Rightarrow> string" where
  \<comment> \<open>an optional string inside a format string\<close>
  "opt_str m = (case m of None \<Rightarrow> ''None'' | Some s \<Rightarrow> s)"

definition report_failure :: "ValidationResult \<Rightarrow> event list" where
  \<comment> \<open>the diagnostic of a failed check, and its suggestion when it has one\<close>
  "report_failure v =
     Err (''Error: '' @ opt_str (error_message v)) #
     (case suggestion v of
        None \<Rightarrow> []
      | Some s \<Rightarrow> if s = [] then [] else [Err (''  '' @ s)])"

text \<open>
  The body of \<open>cli\<close> is a sequence of steps, each of which either ends the process or
  goes on to the next one; the steps are numbered as the comments of the source number
  them. \<open>sys.exit(n)\<close> is the outcome \<open>Exit n\<close>; an exception that no handler of \<open>cli\<close>
  catches is the outcome \<open>Uncaught\<close>.
\<close>

definition cli_11_launch :: "env \<Rightarrow> WorktreeConfig \<Rightarrow> FeatureRequest \<Rightarrow> outcome traced" where
  "cli_11_launch e worktree_config feature_req =
     (case launch_claude_code e (wc_directory_path worktree_config) (fr_text feature_req) of
        (evs, exit_code) \<Rightarrow> (Progress ''Launching Claude Code...'' # evs, Exit exit_code))"

definition cli_10_create :: "env \<Rightarrow> WorktreeConfig \<Rightarrow> FeatureRequest \<Rightarrow> outcome traced" where
  "cli_10_create e worktree_config feature_req =
     pre [Progress (''Creating worktree at .worktrees/'' @ wc_branch_name worktree_config)]
       (case create_worktree e (wc_directory_path worktree_config) (wc_branch_name worktree_config)
               (wc_base_branch worktree_config) of
          (evs, Inl (RuntimeError m)) \<Rightarrow> (evs @ [Err (''Error: '' @ m)], Exit 2)
        | (evs, Inl x) \<Rightarrow> (evs, Uncaught x)
        | (evs, Inr ok) \<Rightarrow> pre evs (cli_11_launch e worktree_config feature_req))"

definition cli_9_config ::
  "env \<Rightarrow> path \<Rightarrow> string \<Rightarrow> FeatureNumber \<Rightarrow> FeatureRequest \<Rightarrow> outcome traced" where
  "cli_9_config e repo_root main_branch feature_number feature_req =
     (let branch_name = formatted feature_number @ ''-'' @ fr_sanitized_name feature_req;
          worktree_path = joinpath (joinpath repo_root ''.worktrees'') branch_name
      in case WorktreeConfig_new branch_name worktree_path main_branch feature_number feature_req of
           Inl x \<Rightarrow> ([Err (''Error: Failed to create worktree configuration: '' @ exn_str x)], Exit 4)
         | Inr worktree_config \<Rightarrow> cli_10_create e worktree_config feature_req)"

definition cli_8_feature_request ::
  "env \<Rightarrow> string \<Rightarrow> path \<Rightarrow> string \<Rightarrow> FeatureNumber \<Rightarrow> outcome traced" where
  "cli_8_feature_request e feature_request repo_root main_branch feature_number =
     (let sanitized_name = sanitize_feature_name_default feature_request
      in case FeatureRequest_new feature_request sanitized_name of
           Inl x \<Rightarrow> ([Err (''Error: Invalid feature request: '' @ exn_str x)], Exit 3)
         | Inr feature_req \<Rightarrow> cli_9_config e repo_root main_branch feature_number feature_req)"

definition cli_6_number :: "env \<Rightarrow> string \<Rightarrow> path \<Rightarrow> string \<Rightarrow> outcome traced" where
  \<comment> \<open>\<open>except ValueError\<close> also catches the validation error of the model, a subclass\<close>
  "cli_6_number e feature_request repo_root main_branch =
     (case list_all_branches e of
        (evs, Inl x) \<Rightarrow> (evs, Uncaught x)
      | (evs, Inr branches) \<Rightarrow>
          (case get_next_feature_number branches of
             Inl (ValueError m) \<Rightarrow> (evs @ [Err (''Error: '' @ m)], Exit 2)
           | Inl (ValidationError m) \<Rightarrow> (evs @ [Err (''Error: '' @ m)], Exit 2)
           | Inl x \<Rightarrow> (evs, Uncaught x)
           | Inr feature_number \<Rightarrow>
               pre (evs @ [Progress (''Next feature number: '' @ formatted feature_number)])
                 (cli_8_feature_request e feature_request repo_root main_branch feature_number)))"

definition cli_5_fetch :: "env \<Rightarrow> string \<Rightarrow> path \<Rightarrow> string \<Rightarrow> outcome traced" where
  "cli_5_fetch e feature_request repo_root main_branch =
     pre [Progress ''Fetching remote branches...'']
       (case git_fetch e of
          (evs, Inl x) \<Rightarrow> (evs, Uncaught x)
        | (evs, Inr ok) \<Rightarrow>
            pre (evs @ (if ok then []
                       else [Err ''  Warning: git fetch failed, continuing without remote updates'']))
              (cli_6_number e feature_request repo_root main_branch))"

definition cli_4_claude :: "env \<Rightarrow> string \<Rightarrow> path \<Rightarrow> string \<Rightarrow> outcome traced" where
  "cli_4_claude e feature_request repo_root main_branch =
     (case is_claude_code_installed e of
        (evs, Inl x) \<Rightarrow> (evs, Uncaught x)
      | (evs, Inr claude_validation) \<Rightarrow>
          if \<not> passed claude_validation then (evs @ report_failure claude_validation, Exit 1)
          else pre (evs @ [Progress ''Claude Code found''])
                 (cli_5_fetch e feature_request repo_root main_branch))"

definition cli_3_spec_kit :: "env \<Rightarrow> string \<Rightarrow> path \<Rightarrow> string \<Rightarrow> outcome traced" where
  "cli_3_spec_kit e feature_request repo_root main_branch =
     (case is_spec_kit_initialized e repo_root main_branch of
        (evs, Inl x) \<Rightarrow> (evs, Uncaught x)
      | (evs, Inr spec_kit_validation) \<Rightarrow>
          if \<not> passed spec_kit_validation then (evs @ report_failure spec_kit_validation, Exit 1)
          else pre (evs @ [Progress (''Spec Kit initialized on '' @ main_branch @ '' branch'')])
                 (cli_4_claude e feature_request repo_root main_branch))"

definition cli_main_branch :: "env \<Rightarrow> string \<Rightarrow> path \<Rightarrow> outcome traced" where
  "cli_main_branch e feature_request repo_root =
     (case get_main_branch e of
        (evs, Inl (RuntimeError m)) \<Rightarrow> (evs @ [Err (''Error: '' @ m)], Exit 2)
      | (evs, Inl x) \<Rightarrow> (evs, Uncaught x)
      | (evs, Inr main_branch) \<Rightarrow> pre evs (cli_3_spec_kit e feature_request repo_root main_branch))"

definition cli_repo_root :: "env \<Rightarrow> string \<Rightarrow> outcome traced" where
  "cli_repo_root e feature_request =
     (case get_repo_root e of
        (evs, Inl (RuntimeError m)) \<Rightarrow> (evs @ [Err (''Error: '' @ m)], Exit 1)
      | (evs, Inl x) \<Rightarrow> (evs, Uncaught x)
      | (evs, Inr repo_root) \<Rightarrow>
          pre (evs @ [Progress (''In git repository: '' @ path_str repo_root)])
            (cli_main_branch e feature_request repo_root))"

definition cli_2_repository :: "env \<Rightarrow> string \<Rightarrow> outcome traced" where
  \<open>cli_2_repository e feature_request =
     (case is_git_repository e (cwd e) of
        (evs, Inl x) \<Rightarrow> (evs, Uncaught x)
      | (evs, Inr inside) \<Rightarrow>
          if \<not> inside
          then (evs @ [Err ''Error: Not in a git repository'',
                       Err ''  Run 'git init' or navigate to an existing repository''], Exit 1)
          else pre evs (cli_repo_root e feature_request))\<close>

definition cli_1_git :: "env \<Rightarrow> string \<Rightarrow> outcome traced" where
  "cli_1_git e feature_request =
     (case validate_git_installed e of
        (evs, Inl x) \<Rightarrow> (evs, Uncaught x)
      | (evs, Inr git_validation) \<Rightarrow>
          if \<not> passed git_validation then (evs @ report_failure git_validation, Exit 1)
          else pre (evs @ [Progress ''Git found'']) (cli_2_repository e feature_request))"

definition cli :: "env \<Rightarrow> string \<Rightarrow> outcome traced" where
  \<open>cli e feature_request =
     (if feature_request = [] \<or> strip_ws feature_request = []
      then ([Err ''Error: Feature request is required'',
             Err ''  Usage: spork <feature-request>'',
             Err ''  Example: spork "add user authentication"''], Exit 3)
      else pre [Progress ''Validating prerequisites...''] (cli_1_git e feature_request))\<close>

subsection \<open>Runs of the pipeline, as the specification words them\<close>

definition is_worktree_add :: "string list \<Rightarrow> bool" where
  \<comment> \<open>the command that provisions a worktree\<close>
  "is_worktree_add argv = (take 3 argv = [''git'', ''worktree'', ''add''])"

definition raises_provisioning_error :: "proc_result \<Rightarrow> bool" where
  \<comment> \<open>the results for which \<open>create_worktree\<close> raises its \<open>RuntimeError\<close>: a non-zero
      return code, a tool that is not found, a timeout\<close>
  "raises_provisioning_error r =
     (case r of
        Completed rc out err \<Rightarrow> rc \<noteq> 0
      | NotFound m \<Rightarrow> True
      | TimedOut m \<Rightarrow> True
      | OSFailure m \<Rightarrow> False)"

definition quiet :: "event list \<Rightarrow> bool" where
  \<comment> \<open>events of the steps before the allocation: no worktree is added and no feature
      number is announced\<close>
  "quiet evs =
     ((\<forall>argv. Run None argv \<in> set evs \<longrightarrow> \<not> is_worktree_add argv) \<and>
      (\<forall>f. Progress (''Next feature number: '' @ f) \<notin> set evs))"

definition early :: "outcome \<Rightarrow> bool" where
  \<comment> \<open>the outcomes of a run that ends before the allocation\<close>
  "early out = (out = Exit 1 \<or> out = Exit 2 \<or> (\<exists>x. out = Uncaught x))"

definition pipeline_calls :: "collaborator list" where
  \<comment> \<open>the collaborators that a run calls, in the order of the calls\<close>
  "pipeline_calls =
     [C_validate_git_installed, C_is_git_repository, C_get_repo_root, C_get_main_branch,
      C_is_spec_kit_initialized, C_is_claude_code_installed, C_git_fetch, C_list_all_branches,
      C_create_worktree, C_launch_claude_code]"

definition is_check :: "collaborator \<Rightarrow> bool" where
  \<comment> \<open>the four prerequisite checks\<close>
  "is_check c = (c \<in> set [C_validate_git_installed, C_is_git_repository,
                           C_is_spec_kit_initialized, C_is_claude_code_installed])"

definition checks :: "event list \<Rightarrow> collaborator list" where
  \<comment> \<open>the prerequisite checks that a run evaluates, in the order of their evaluation\<close>
  "checks tr = filter is_check (calls tr)"

definition tail_ok :: "env \<Rightarrow> collaborator list \<Rightarrow> outcome traced \<Rightarrow> bool" where
  \<comment> \<open>what holds of the rest of a run, from a step on, given the collaborators \<open>cs\<close> that
      remain to be called: they are called in this order; the assistant is launched only
      after all of them; and a failed provisioning ends the run with the code 2, the
      assistant not launched\<close>
  "tail_ok e cs r =
     (prefix (calls (fst r)) cs \<and>
      (C_launch_claude_code \<in> set (calls (fst r)) \<longrightarrow> calls (fst r) = cs \<and> (\<exists>n. snd r = Exit n)) \<and>
      (\<forall>argv. Run None argv \<in> set (fst r) \<and> is_worktree_add argv \<and>
              raises_provisioning_error (run e None argv) \<longrightarrow>
              snd r = Exit 2 \<and> C_launch_claude_code \<notin> set (calls (fst r))))"

definition rejects_empty :: "string \<Rightarrow> outcome traced \<Rightarrow> bool" where
  \<comment> \<open>what holds of the rest of a run when the sanitized feature text is empty: no
      worktree is created and the assistant is not launched; the run ends with the code 1,
      2 or 3 or with an exception; it ends with the code 3 once the feature number is
      announced\<close>
  "rejects_empty feature_request r =
     (sanitize_feature_name_default feature_request = [] \<longrightarrow>
        C_create_worktree \<notin> set (calls (fst r)) \<and> C_launch_claude_code \<notin> set (calls (fst r)) \<and>
        (early (snd r) \<or> snd r = Exit 3) \<and>
        (\<forall>f. Progress (''Next feature number: '' @ f) \<in> set (fst r) \<longrightarrow> snd r = Exit 3))"

definition run_ok :: "env \<Rightarrow> string \<Rightarrow> collaborator list \<Rightarrow> outcome traced \<Rightarrow> bool" where
  "run_ok e feature_request cs r = (tail_ok e cs r \<and> rejects_empty feature_request r)"

definition rejected_at_request :: "outcome traced \<Rightarrow> bool" where
  \<comment> \<open>a run that ends at the construction of the request: the branches were listed, the
      last lines are the announcement of the feature number and the rejection, and the
      code is 3\<close>
  "rejected_at_request r =
     (snd r = Exit 3 \<and> C_list_all_branches \<in> set (calls (fst r)) \<and>
      (\<exists>evs f m. fst r = evs @ [Progress (''Next feature number: '' @ f),
                                  Err (''Error: Invalid feature request: '' @ m)]))"

definition stops_empty :: "outcome traced \<Rightarrow> bool" where
  \<comment> \<open>what holds of the rest of a run, from a step before the allocation on, when the
      sanitized feature text is empty: once the feature number is announced the request is
      rejected, and a run without the announcement has ended before the allocation\<close>
  "stops_empty r =
     (if \<exists>f. Progress (''Next feature number: '' @ f) \<in> set (fst r)
      then rejected_at_request r else early (snd r))"

section \<open>The file system\<close>

text \<open>
  The file system is a tree. A file holds what reading it as UTF-8 text gives, the text
  or the exception raised (a file that cannot be read, bytes that are not UTF-8), and
  whether it may be overwritten; a directory holds whether entries may be added to it,
  and its entries. Every node carries its own name; the name of the root is not used.
  There are no symbolic links, and a component \<open>..\<close> is a name like any other, that no
  directory has.
\<close>

datatype node =
    File (nm: string) (data: "exn + string") (writable: bool)
  | Dir (nm: string) (writable: bool) (children: "node list")

fun lookup :: "node \<Rightarrow> string list \<Rightarrow> node option" where
  "lookup n [] = Some n"
| "lookup (File f c w) (x # xs) = None"
| "lookup (Dir d w kids) (x # xs) =
     (case find (\<lambda>k. nm k = x) kids of None \<Rightarrow> None | Some k \<Rightarrow> lookup k xs)"

fun walk :: "node \<Rightarrow> (string list \<times> node) list" where
  \<comment> \<open>every node below a directory, with its path from the directory\<close>
  "walk (File f c w) = []"
| "walk (Dir d w kids) =
     concat (map (\<lambda>k. ([nm k], k) # map (\<lambda>(p, m). (nm k # p, m)) (walk k)) kids)"

fun fresh_dirs :: "string \<Rightarrow> string list \<Rightarrow> node" where
  \<comment> \<open>a new chain of empty directories\<close>
  "fresh_dirs x [] = Dir x True []"
| "fresh_dirs x (y # ys) = Dir x True [fresh_dirs y ys]"

fun mkdir_p :: "node \<Rightarrow> string list \<Rightarrow> exn + node" where
  \<comment> \<open>\<open>mkdir(parents=True, exist_ok=True)\<close>\<close>
  "mkdir_p (Dir d w kids) [] = Inr (Dir d w kids)"
| "mkdir_p (File f c w) [] = Inl (OSError ''File exists'')"
| "mkdir_p (File f c w) (x # xs) = Inl (OSError ''Not a directory'')"
| "mkdir_p (Dir d w kids) (x # xs) =
     (case find (\<lambda>k. nm k = x) kids of
        None \<Rightarrow> if w then Inr (Dir d w (kids @ [fresh_dirs x xs]))
                else Inl (OSError ''Permission denied'')
      | Some k \<Rightarrow>
          (case mkdir_p k xs of
             Inl e \<Rightarrow> Inl e
           | Inr k' \<Rightarrow> Inr (Dir d w (map (\<lambda>j. if nm j = x then k' else j) kids))))"

fun write_file :: "node \<Rightarrow> string list \<Rightarrow> string \<Rightarrow> exn + node" where
  \<comment> \<open>\<open>write_text\<close>: the file is created or overwritten\<close>
  "write_file (Dir d w kids) [] s = Inl (OSError ''Is a directory'')"
| "write_file (File f c w) [] s =
     (if w then Inr (File f (Inr s) w) else Inl (OSError ''Permission denied''))"
| "write_file (File f c w) (x # xs) s = Inl (OSError ''Not a directory'')"
| "write_file (Dir d w kids) (x # xs) s =
     (case find (\<lambda>k. nm k = x) kids of
        None \<Rightarrow>
          if xs \<noteq> [] then Inl (FileNotFoundError ''No such file or directory'')
          else if w then Inr (Dir d w (kids @ [File x (Inr s) True]))
          else Inl (OSError ''Permission denied'')
      | Some k \<Rightarrow>
          (case write_file k xs s of
             Inl e \<Rightarrow> Inl e
           | Inr k' \<Rightarrow> Inr (Dir d w (map (\<lambda>j. if nm j = x then k' else j) kids))))"

definition absolute :: "env \<Rightarrow> path \<Rightarrow> string list" where
  \<comment> \<open>the components of a path from the root: a relative path starts at the current
      directory\<close>
  "absolute e p =
     (let unanchored = (\<lambda>q. case q of a # r \<Rightarrow> (if is_anchor a then r else q) | [] \<Rightarrow> [])
      in case p of
           a # r \<Rightarrow> (if is_anchor a then r else unanchored (cwd e) @ p)
         | [] \<Rightarrow> unanchored (cwd e))"

definition path_exists :: "env \<Rightarrow> node \<Rightarrow> path \<Rightarrow> bool" where
  \<comment> \<open>\<open>p.exists()\<close>\<close>
  "path_exists e fs p = (lookup fs (absolute e p) \<noteq> None)"

definition is_dir :: "env \<Rightarrow> node \<Rightarrow> path \<Rightarrow> bool" where
  "is_dir e fs p = (case lookup fs (absolute e p) of Some (Dir d w kids) \<Rightarrow> True | _ \<Rightarrow> False)"

definition is_file :: "env \<Rightarrow> node \<Rightarrow> path \<Rightarrow> bool" where
  "is_file e fs p = (case lookup fs (absolute e p) of Some (File f c w) \<Rightarrow> True | _ \<Rightarrow> False)"

definition read_text :: "env \<Rightarrow> node \<Rightarrow> path \<Rightarrow> exn + string" where
  "read_text e fs p =
     (case lookup fs (absolute e p) of
        Some (File f c w) \<Rightarrow> c
      | Some (Dir d w kids) \<Rightarrow> Inl (OSError ''Is a directory'')
      | None \<Rightarrow> Inl (FileNotFoundError ''No such file or directory''))"

definition rglob_env :: "env \<Rightarrow> node \<Rightarrow> path \<Rightarrow> path list" where
  \<comment> \<open>\<open>p.rglob('.env*')\<close>: the paths below \<open>p\<close> whose last component starts with \<open>.env\<close>\<close>
  "rglob_env e fs p =
     (case lookup fs (absolute e p) of
        Some d \<Rightarrow> map (\<lambda>(rel, m). p @ rel) (filter (\<lambda>(rel, m). starts_with ''.env'' (last rel)) (walk d))
      | None \<Rightarrow> [])"

definition relative_to :: "path \<Rightarrow> path \<Rightarrow> exn + path" where
  \<comment> \<open>\<open>p.relative_to(base)\<close>\<close>
  "relative_to p base =
     (if take (length base) p = base then Inr (drop (length base) p)
      else Inl (ValueError (path_str p @ '' is not in the subpath of '' @ path_str base)))"

section \<open>data_models.py: EnvFileCopyResult\<close>

record EnvFileCopyResult =
  files_discovered :: int
  files_copied :: int
  files_failed :: int
  errors :: "string list"

definition EnvFileCopyResult_new :: "int \<Rightarrow> int \<Rightarrow> int \<Rightarrow> string list \<Rightarrow> exn + EnvFileCopyResult" where
  \<comment> \<open>the constructor with its validation: no negative count, and
      \<open>validate_counts\<close>\<close>
  "EnvFileCopyResult_new d c f errs =
     (if d < 0 then Inl (ValidationError ''files_discovered'')
      else if c < 0 then Inl (ValidationError ''files_copied'')
      else if f < 0 then Inl (ValidationError ''files_failed'')
      else if c + f > d
        then Inl (ValidationError (''Copied ('' @ str_int c @ '') + Failed ('' @ str_int f @
                                   '') cannot exceed Discovered ('' @ str_int d @ '')''))
      else Inr \<lparr>files_discovered = d, files_copied = c, files_failed = f, errors = errs\<rparr>)"

definition success :: "EnvFileCopyResult \<Rightarrow> bool" where
  "success r = (files_failed r = 0 \<and> files_discovered r > 0)"

definition partial_success :: "EnvFileCopyResult \<Rightarrow> bool" where
  "partial_success r = (files_copied r > 0 \<and> files_failed r > 0)"

section \<open>env_files.py\<close>

fun discover_loop :: "env \<Rightarrow> node \<Rightarrow> path \<Rightarrow> path list \<Rightarrow> string list \<Rightarrow> exn + string list" where
  \<comment> \<open>the loop over the paths that \<open>rglob\<close> gives, which fills \<open>env_files\<close>\<close>
  "discover_loop e fs workspace_path [] env_files = Inr env_files"
| "discover_loop e fs workspace_path (file_path # rest) env_files =
     (if ''.git'' \<in> set file_path \<or> ''.worktrees'' \<in> set file_path
      then discover_loop e fs workspace_path rest env_files
      else if is_file e fs file_path
      then (case relative_to file_path workspace_path of
              Inl x \<Rightarrow> Inl x
            | Inr relative_path \<Rightarrow>
                discover_loop e fs workspace_path rest (env_files @ [path_str relative_path]))
      else discover_loop e fs workspace_path rest env_files)"

definition discover_env_files :: "env \<Rightarrow> node \<Rightarrow> path \<Rightarrow> exn + string list" where
  "discover_env_files e fs workspace_path =
     (if \<not> path_exists e fs workspace_path
      then Inl (ValueError (''Workspace path does not exist: '' @ path_str workspace_path))
      else if \<not> is_dir e fs workspace_path
      then Inl (ValueError (''Workspace path is not a directory: '' @ path_str workspace_path))
      else (case discover_loop e fs workspace_path (rglob_env e fs workspace_path) [] of
              Inl x \<Rightarrow> Inl x
            | Inr env_files \<Rightarrow> Inr (sort env_files)))"

definition read_env_file_from_filesystem :: "env \<Rightarrow> node \<Rightarrow> path \<Rightarrow> string \<Rightarrow> exn + string" where
  "read_env_file_from_filesystem e fs workspace_path filepath =
     (if \<not> path_exists e fs workspace_path
      then Inl (ValueError (''Workspace path does not exist: '' @ path_str workspace_path))
      else if filepath = [] \<or> strip_ws filepath = []
      then Inl (ValueError ''Filepath cannot be empty'')
      else let file_path = joinpath workspace_path filepath
           in if \<not> path_exists e fs file_path
              then Inl (FileNotFoundError (''File not found: '' @ filepath))
              else if \<not> is_file e fs file_path
              then Inl (ValueError (''Path is not a file: '' @ filepath))
              else read_text e fs file_path)"

definition copy_one :: "env \<Rightarrow> path \<Rightarrow> path \<Rightarrow> node \<Rightarrow> string \<Rightarrow> exn option \<times> node" where
  \<comment> \<open>the body of the loop of \<open>copy_env_files_to_worktree\<close> for one file: the exception
      that its \<open>try\<close> block raised, if any, and the file system afterwards\<close>
  "copy_one e repo_root worktree_path fs filepath =
     (case read_env_file_from_filesystem e fs repo_root filepath of
        Inl x \<Rightarrow> (Some x, fs)
      | Inr content \<Rightarrow>
          let dest_path = joinpath worktree_path filepath
          in case mkdir_p fs (absolute e (parent dest_path)) of
               Inl x \<Rightarrow> (Some x, fs)
             | Inr fs1 \<Rightarrow>
                 (case write_file fs1 (absolute e dest_path) content of
                    Inl x \<Rightarrow> (Some x, fs1)
                  | Inr fs2 \<Rightarrow> (None, fs2)))"

fun copy_loop ::
  "env \<Rightarrow> path \<Rightarrow> path \<Rightarrow> string list \<Rightarrow> node \<times> int \<times> int \<times> string list \<Rightarrow>
   node \<times> int \<times> int \<times> string list" where
  \<comment> \<open>the loop over \<open>env_files\<close>, on the file system and the three accumulators\<close>
  "copy_loop e repo_root worktree_path [] st = st"
| "copy_loop e repo_root worktree_path (filepath # rest) (fs, copied, failed, errs) =
     (case copy_one e repo_root worktree_path fs filepath of
        (None, fs') \<Rightarrow> copy_loop e repo_root worktree_path rest (fs', copied + 1, failed, errs)
      | (Some x, fs') \<Rightarrow>
          copy_loop e repo_root worktree_path rest
            (fs', copied, failed + 1, errs @ [''Failed to copy '' @ filepath @ '': '' @ exn_str x]))"

definition copy_env_files_to_worktree :: "env \<Rightarrow> node \<Rightarrow> path \<Rightarrow> exn + EnvFileCopyResult \<times> node" where
  \<comment> \<open>the report, and the file system after the copies\<close>
  "copy_env_files_to_worktree e fs worktree_path =
     (if \<not> path_exists e fs worktree_path
      then Inl (ValueError (''Worktree path does not exist: '' @ path_str worktree_path))
      else if \<not> is_dir e fs worktree_path
      then Inl (ValueError (''Worktree path is not a directory: '' @ path_str worktree_path))
      else case snd (get_repo_root e) of
             Inl (RuntimeError m) \<Rightarrow> Inl (RuntimeError (''Cannot determine repository root: '' @ m))
           | Inl x \<Rightarrow> Inl x
           | Inr repo_root \<Rightarrow>
               (case discover_env_files e fs repo_root of
                  Inl x \<Rightarrow> Inl x
                | Inr env_files \<Rightarrow>
                    (case copy_loop e repo_root worktree_path env_files (fs, 0, 0, []) of
                       (fs', copied, failed, errs) \<Rightarrow>
                         (case EnvFileCopyResult_new (int (length env_files)) copied failed errs of
                            Inl x \<Rightarrow> Inl x
                          | Inr r \<Rightarrow> Inr (r, fs')))))"

subsection \<open>File systems and copies, as the specification words them\<close>

fun valid_name :: "string \<Rightarrow> bool" where
  \<comment> \<open>a name that an entry of a directory can have\<close>
  "valid_name x = (x \<noteq> [] \<and> CHR ''/'' \<notin> set x \<and> x \<noteq> ''.'' \<and> x \<noteq> ''..'')"

fun wf_node :: "node \<Rightarrow> bool" where
  \<comment> \<open>the entries of a directory have valid names, each a different one\<close>
  "wf_node (File f c w) = True"
| "wf_node (Dir d w kids) =
     (distinct (map nm kids) \<and> list_all (\<lambda>k. valid_name (nm k)) kids \<and> list_all wf_node kids)"

fun attempts :: "env \<Rightarrow> path \<Rightarrow> path \<Rightarrow> node \<Rightarrow> string list \<Rightarrow> (string \<times> exn option) list" where
  \<comment> \<open>the files in the order in which they are processed, each with the exception that
      its copy raised, if any; the copy of a file starts from the file system that the
      copies before it left\<close>
  "attempts e repo_root worktree_path fs [] = []"
| "attempts e repo_root worktree_path fs (filepath # rest) =
     (filepath, fst (copy_one e repo_root worktree_path fs filepath)) #
     attempts e repo_root worktree_path (snd (copy_one e repo_root worktree_path fs filepath)) rest"

definition failures :: "(string \<times> exn option) list \<Rightarrow> (string \<times> exn) list" where
  \<comment> \<open>the files whose copy failed\<close>
  "failures as = concat (map (\<lambda>(f, r). case r of None \<Rightarrow> [] | Some x \<Rightarrow> [(f, x)]) as)"

definition successes :: "(string \<times> exn option) list \<Rightarrow> string list" where
  \<comment> \<open>the files whose copy succeeded\<close>
  "successes as = concat (map (\<lambda>(f, r). case r of None \<Rightarrow> [f] | Some x \<Rightarrow> []) as)"

fun fs_after :: "env \<Rightarrow> path \<Rightarrow> path \<Rightarrow> node \<Rightarrow> string list \<Rightarrow> node" where
  \<comment> \<open>the file system after the copies of the files, one after the other\<close>
  "fs_after e repo_root worktree_path fs [] = fs"
| "fs_after e repo_root worktree_path fs (filepath # rest) =
     fs_after e repo_root worktree_path (snd (copy_one e repo_root worktree_path fs filepath)) rest"

definition failure_message :: "string \<times> exn \<Rightarrow> string" where
  \<comment> \<open>the description of a failed copy\<close>
  "failure_message fx = ''Failed to copy '' @ fst fx @ '': '' @ exn_str (snd fx)"

definition paths_below :: "node \<Rightarrow> string list list" where
  \<comment> \<open>the paths of the nodes below a directory\<close>
  "paths_below n = map fst (walk n)"

section \<open>Example environments\<close>

definition healthy_run :: "string option \<Rightarrow> string list \<Rightarrow> proc_result" where
  \<comment> \<open>a repository at \<open>/repo\<close> with the scaffold committed on \<open>main\<close>, two feature branches,
      both tools installed, and an assistant session that ends with the code 0\<close>
  "healthy_run dir argv =
     (if argv = [''git'', ''-C'', ''/repo'', ''rev-parse'', ''--is-inside-work-tree'']
        then Completed 0 (''true'' @ [CHR 0x0A]) []
      else if argv = [''git'', ''rev-parse'', ''--show-toplevel'']
        then Completed 0 (''/repo'' @ [CHR 0x0A]) []
      else if argv = [''git'', ''ls-tree'', ''main:.specify/templates'']
        then Completed 0 ''100644 blob 5f2a spec-template.md'' []
      else if argv = [''git'', ''ls-tree'', ''main:.specify/scripts'']
        then Completed 0 ''040000 tree 9c1e bash'' []
      else if argv = [''git'', ''branch'', ''-a'', ''--format=%(refname:short)'']
        then Completed 0 (''main'' @ [CHR 0x0A] @ ''001-first'' @ [CHR 0x0A] @ ''origin/002-second'' @ [CHR 0x0A]) []
      else Completed 0 [] [])"

definition healthy :: env where
  "healthy = \<lparr>cwd = [''/'', ''repo''], run = healthy_run, gitignore = (\<lambda>p. None)\<rparr>"

definition failing :: "string list \<Rightarrow> proc_result \<Rightarrow> env" where
  \<comment> \<open>the healthy environment, but for one command\<close>
  "failing argv r = healthy\<lparr>run := (\<lambda>dir a. if a = argv then r else healthy_run dir a)\<rparr>"

definition add_feature_argv :: "string list" where
  \<comment> \<open>the command that provisions the worktree of the request \<open>add feature\<close> in the healthy
      environment\<close>
  "add_feature_argv =
     [''git'', ''worktree'', ''add'', ''/repo/.worktrees/003-add-feature'', ''-b'', ''003-add-feature'', ''main'']"

definition branch_exists :: env where
  \<open>branch_exists =
     failing add_feature_argv (Completed 128 [] ''fatal: a branch named '003-add-feature' already exists'')\<close>

definition worktree_times_out :: env where
  "worktree_times_out = failing add_feature_argv (TimedOut ''timed out after 10 seconds'')"

definition git_missing :: env where
  "git_missing = failing [''git'', ''--version''] (NotFound ''No such file or directory'')"

definition scaffold_missing :: env where
  "scaffold_missing =
     failing [''git'', ''show'', ''main:.specify/memory/constitution.md'']
       (Completed 128 [] ''fatal: path does not exist in main'')"

definition outside_repository :: env where
  "outside_repository =
     failing [''git'', ''-C'', ''/repo'', ''rev-parse'', ''--is-inside-work-tree'']
       (Completed 128 [] ''fatal: not a git repository'')"

definition claude_missing :: env where
  "claude_missing = failing [''claude'', ''--version''] (NotFound ''No such file or directory'')"

definition repo_fs :: node where
  \<comment> \<open>the files of the repository at \<open>/repo\<close>, one of them not readable, and a new
      worktree\<close>
  "repo_fs =
     Dir ''/'' True
       [Dir ''repo'' True
          [File ''.env'' (Inr ''A=1'') True,
           File ''.env.local'' (Inl (OSError ''Permission denied'')) True,
           File ''README.md'' (Inr ''spork'') True,
           Dir ''backend'' True
             [File ''.env'' (Inr ''C=3'') True,
              File ''.env.secret'' (Inr ''S=7'') True],
           Dir ''.envs'' True [File ''dev'' (Inr ''D=4'') True],
           Dir ''.git'' True [File ''.env.backup'' (Inr ''E=5'') True],
           Dir ''.worktrees'' True
             [Dir ''001-first'' True [File ''.env'' (Inr ''F=6'') True],
              Dir ''003-add-feature'' True []]]]"

definition two_env_fs :: node where
  \<comment> \<open>a repository with two secret files, and a new worktree\<close>
  "two_env_fs =
     Dir ''/'' True
       [Dir ''repo'' True
          [File ''.env'' (Inr ''A=1'') True,
           File ''.env.local'' (Inr ''B=2'') True,
           Dir ''.worktrees'' True [Dir ''003-add-feature'' True []]]]"

definition new_worktree :: path where
  "new_worktree = [''/'', ''repo'', ''.worktrees'', ''003-add-feature'']"

definition first_worktree :: path where
  \<comment> \<open>a worktree of the repository, made earlier\<close>
  "first_worktree = [''/'', ''repo'', ''.worktrees'', ''001-first'']"

section \<open>Verification\<close>

subsection \<open>The sanitized name\<close>

lemma char_le_nat: "(c \<le> d) = ((of_char c :: nat) \<le> of_char d)"
  by (simp add: less_eq_char_def)

lemma lower_char_ident: "is_ident_char c \<Longrightarrow> lower_char c = c"
  unfolding is_ident_char_def is_lower_alnum_def lower_char_def
  by (auto simp: char_le_nat)

lemma ident_not_underscore: "is_ident_char c \<Longrightarrow> c \<noteq> CHR ''_'' \<and> c \<noteq> CHR '' ''"
  unfolding is_ident_char_def is_lower_alnum_def
  by (auto simp: char_le_nat)

lemma not_alnum_hyphen: "\<not> is_lower_alnum CHR ''-''"
  unfolding is_lower_alnum_def by (simp add: char_le_nat)

lemma collapse_Nil_iff: "collapse_hyphens s = [] \<longleftrightarrow> s = []"
  by (cases s) auto

lemma hd_collapse: "s \<noteq> [] \<Longrightarrow> hd (collapse_hyphens s) = hd s"
  by (cases s) auto

lemma set_collapse: "set (collapse_hyphens s) \<subseteq> set s"
proof (induction s rule: collapse_hyphens.induct)
  case 1
  then show ?case by simp
next
  case (2 c cs)
  show ?case
  proof (cases "c = CHR ''-''")
    case True
    with 2 have "set (collapse_hyphens (dropWhile (\<lambda>d. d = CHR ''-'') cs)) \<subseteq> set cs"
      using set_dropWhileD by fastforce
    with True show ?thesis by auto
  next
    case False
    with 2 show ?thesis by auto
  qed
qed

lemma no_double_Cons:
  "no_double_hyphen (c # xs) \<longleftrightarrow>
     (xs = [] \<or> \<not> (c = CHR ''-'' \<and> hd xs = CHR ''-'')) \<and> no_double_hyphen xs"
  by (cases xs) auto

lemma hd_dropWhile_hyphen:
  "dropWhile (\<lambda>d. d = CHR ''-'') cs \<noteq> [] \<Longrightarrow> hd (dropWhile (\<lambda>d. d = CHR ''-'') cs) \<noteq> CHR ''-''"
  using hd_dropWhile [of "\<lambda>d. d = CHR ''-''" cs] by simp

lemma no_double_collapse: "no_double_hyphen (collapse_hyphens s)"
proof (induction s rule: collapse_hyphens.induct)
  case 1
  then show ?case by simp
next
  case (2 c cs)
  show ?case
  proof (cases "c = CHR ''-''")
    case True
    let ?r = "dropWhile (\<lambda>d. d = CHR ''-'') cs"
    from 2 True have ih: "no_double_hyphen (collapse_hyphens ?r)" by simp
    have "collapse_hyphens ?r = [] \<or> hd (collapse_hyphens ?r) \<noteq> CHR ''-''"
    proof (cases "?r = []")
      case True
      then have "collapse_hyphens ?r = []" by (simp only: collapse_Nil_iff)
      then show ?thesis ..
    next
      case False
      then have "hd (collapse_hyphens ?r) = hd ?r" by (rule hd_collapse)
      with hd_dropWhile_hyphen [OF False] show ?thesis by simp
    qed
    with ih True show ?thesis by (simp add: no_double_Cons)
  next
    case False
    with 2 show ?thesis by (simp add: no_double_Cons)
  qed
qed

lemma collapse_id: "no_double_hyphen s \<Longrightarrow> collapse_hyphens s = s"
proof (induction s rule: collapse_hyphens.induct)
  case 1
  then show ?case by simp
next
  case (2 c cs)
  from "2.prems" have nd: "no_double_hyphen cs" and
    h: "cs = [] \<or> \<not> (c = CHR ''-'' \<and> hd cs = CHR ''-'')"
    by (simp_all add: no_double_Cons)
  show ?case
  proof (cases "c = CHR ''-''")
    case True
    with h have "dropWhile (\<lambda>d. d = CHR ''-'') cs = cs" by (cases cs) auto
    with 2 True nd show ?thesis by simp
  next
    case False
    with 2 nd show ?thesis by simp
  qed
qed

lemma no_double_append:
  "no_double_hyphen (xs @ ys) \<Longrightarrow> no_double_hyphen xs \<and> no_double_hyphen ys"
proof (induction xs)
  case Nil
  then show ?case by simp
next
  case (Cons x xs)
  from Cons.prems have "no_double_hyphen (xs @ ys)" by (simp add: no_double_Cons)
  with Cons.IH have ih: "no_double_hyphen xs \<and> no_double_hyphen ys" by simp
  have "xs = [] \<or> \<not> (x = CHR ''-'' \<and> hd xs = CHR ''-'')"
    using Cons.prems by (cases xs) (simp_all add: no_double_Cons)
  with ih show ?case by (simp add: no_double_Cons)
qed

lemma no_double_dropWhile: "no_double_hyphen s \<Longrightarrow> no_double_hyphen (dropWhile P s)"
  using no_double_append [of "takeWhile P s" "dropWhile P s"] by simp

lemma no_double_take: "no_double_hyphen s \<Longrightarrow> no_double_hyphen (take n s)"
  using no_double_append [of "take n s" "drop n s"] by simp

lemma rstrip_prefix: "rstrip P s @ rev (takeWhile P (rev s)) = s"
proof -
  have "rev (takeWhile P (rev s) @ dropWhile P (rev s)) = s" by simp
  then show ?thesis unfolding rstrip_def by (simp del: takeWhile_dropWhile_id)
qed

lemma no_double_rstrip: "no_double_hyphen s \<Longrightarrow> no_double_hyphen (rstrip P s)"
  using no_double_append [of "rstrip P s" "rev (takeWhile P (rev s))"] by (simp add: rstrip_prefix)

lemma set_rstrip: "set (rstrip P s) \<subseteq> set s"
  unfolding rstrip_def using set_dropWhileD by fastforce

lemma last_rstrip: "rstrip P s \<noteq> [] \<Longrightarrow> \<not> P (last (rstrip P s))"
  unfolding rstrip_def using hd_dropWhile [of P "rev s"] by (simp add: last_rev)

lemma hd_rstrip: "rstrip P s \<noteq> [] \<Longrightarrow> hd (rstrip P s) = hd s"
  using rstrip_prefix [of P s] by (metis hd_append2)

lemma length_rstrip: "length (rstrip P s) \<le> length s"
  unfolding rstrip_def using length_dropWhile_le [of P "rev s"] by simp

lemma lstrip_nonempty_hd: "lstrip P s \<noteq> [] \<Longrightarrow> \<not> P (hd (lstrip P s))"
  unfolding lstrip_def using hd_dropWhile [of P s] by simp

lemma clean_strip:
  assumes "list_all is_ident_char s" "no_double_hyphen s"
  shows "clean (strip (\<lambda>c. c = CHR ''-'') s)"
proof -
  let ?P = "\<lambda>c. c = CHR ''-''"
  let ?d = "lstrip ?P s"
  let ?r = "rstrip ?P ?d"
  have "set ?d \<subseteq> set s" unfolding lstrip_def using set_dropWhileD by fastforce
  with set_rstrip [of ?P ?d] have "set ?r \<subseteq> set s" by blast
  with assms(1) have a: "list_all is_ident_char ?r" by (auto simp: list_all_iff)
  have nd: "no_double_hyphen ?r"
    using assms(2) unfolding lstrip_def by (intro no_double_rstrip no_double_dropWhile)
  have e: "?r = [] \<or> (hd ?r \<noteq> CHR ''-'' \<and> last ?r \<noteq> CHR ''-'')"
  proof (cases "?r = []")
    case True
    then show ?thesis ..
  next
    case False
    then have "?d \<noteq> []" by (auto simp: rstrip_def)
    then have "hd ?d \<noteq> CHR ''-''" using lstrip_nonempty_hd [of ?P s] by simp
    moreover have "hd ?r = hd ?d" using False by (rule hd_rstrip)
    moreover have "last ?r \<noteq> CHR ''-''" using last_rstrip [OF False] by simp
    ultimately show ?thesis by simp
  qed
  from a nd e show ?thesis unfolding clean_def strip_def by simp
qed

lemma clean_truncate:
  assumes "clean s"
  shows "clean (rstrip (\<lambda>c. c = CHR ''-'') (slice_to s k))"
proof -
  let ?P = "\<lambda>c. c = CHR ''-''"
  obtain n where t: "slice_to s k = take n s" unfolding slice_to_def by (cases "k < 0") auto
  let ?r = "rstrip ?P (take n s)"
  have "set ?r \<subseteq> set s" using set_rstrip [of ?P "take n s"] set_take_subset [of n s] by blast
  with assms have a: "list_all is_ident_char ?r" by (auto simp: clean_def list_all_iff)
  have nd: "no_double_hyphen ?r"
    using assms unfolding clean_def by (intro no_double_rstrip no_double_take) simp
  have e: "?r = [] \<or> (hd ?r \<noteq> CHR ''-'' \<and> last ?r \<noteq> CHR ''-'')"
  proof (cases "?r = []")
    case True
    then show ?thesis ..
  next
    case False
    have ne: "take n s \<noteq> []"
    proof
      assume "take n s = []"
      then have "?r = []" by (simp only: rstrip_def rev.simps dropWhile.simps)
      with False show False ..
    qed
    then have "s \<noteq> []" and "0 < n" by auto
    then have "hd (take n s) = hd s" by (cases s; cases n) auto
    moreover have "hd s \<noteq> CHR ''-''" using assms \<open>s \<noteq> []\<close> by (simp add: clean_def)
    moreover have "hd ?r = hd (take n s)" using False by (rule hd_rstrip)
    moreover have "last ?r \<noteq> CHR ''-''" using last_rstrip [OF False] by simp
    ultimately show ?thesis by simp
  qed
  from a nd e show ?thesis unfolding clean_def t by simp
qed

lemma ident_after_sub: "list_all is_ident_char (map (\<lambda>c. if is_ident_char c then c else CHR ''-'') s)"
  by (induction s) (simp_all add: is_ident_char_def)

lemma list_all_subset: "set xs \<subseteq> set ys \<Longrightarrow> list_all P ys \<Longrightarrow> list_all P xs"
  by (auto simp: list_all_iff)

lemma clean_sanitize: "clean (sanitize_feature_name x m)"
proof -
  let ?s4 = "map (\<lambda>c. if is_ident_char c then c else CHR ''-'')
               (replace_char CHR '' '' CHR ''-'' (replace_char CHR ''_'' CHR ''-'' (lower x)))"
  let ?s5 = "collapse_hyphens ?s4"
  let ?s6 = "strip (\<lambda>c. c = CHR ''-'') ?s5"
  have "list_all is_ident_char ?s4" by (rule ident_after_sub)
  with set_collapse have "list_all is_ident_char ?s5" by (rule list_all_subset)
  then have c6: "clean ?s6" using no_double_collapse by (rule clean_strip)
  show ?thesis
  proof (cases "int (length ?s6) > m")
    case True
    then have "sanitize_feature_name x m = rstrip (\<lambda>c. c = CHR ''-'') (slice_to ?s6 m)"
      by (simp add: sanitize_feature_name_def Let_def)
    with clean_truncate [OF c6] show ?thesis by simp
  next
    case False
    then have "sanitize_feature_name x m = ?s6"
      by (simp add: sanitize_feature_name_def Let_def)
    with c6 show ?thesis by simp
  qed
qed

lemma length_sanitize: "0 \<le> m \<Longrightarrow> int (length (sanitize_feature_name x m)) \<le> m"
proof -
  assume m: "0 \<le> m"
  let ?s6 = "strip (\<lambda>c. c = CHR ''-'') (collapse_hyphens (map (\<lambda>c. if is_ident_char c then c else CHR ''-'')
               (replace_char CHR '' '' CHR ''-'' (replace_char CHR ''_'' CHR ''-'' (lower x)))))"
  show ?thesis
  proof (cases "int (length ?s6) > m")
    case True
    then have "sanitize_feature_name x m = rstrip (\<lambda>c. c = CHR ''-'') (slice_to ?s6 m)"
      by (simp add: sanitize_feature_name_def Let_def)
    moreover have "length (rstrip (\<lambda>c. c = CHR ''-'') (slice_to ?s6 m)) \<le> length (slice_to ?s6 m)"
      by (rule length_rstrip)
    moreover have "int (length (slice_to ?s6 m)) \<le> m" using m by (simp add: slice_to_def)
    ultimately show ?thesis by simp
  next
    case False
    then have "sanitize_feature_name x m = ?s6"
      by (simp add: sanitize_feature_name_def Let_def)
    with False show ?thesis by simp
  qed
qed

lemma sanitize_clean_id:
  assumes "clean s" "int (length s) \<le> m"
  shows "sanitize_feature_name s m = s"
proof -
  from assms(1) have all: "\<forall>c\<in>set s. is_ident_char c" by (simp add: clean_def list_all_iff)
  have 1: "lower s = s"
    unfolding lower_def by (rule map_idI) (simp add: all lower_char_ident)
  have 2: "replace_char CHR ''_'' CHR ''-'' s = s"
    unfolding replace_char_def by (rule map_idI) (use all ident_not_underscore in auto)
  have 3: "replace_char CHR '' '' CHR ''-'' s = s"
    unfolding replace_char_def by (rule map_idI) (use all ident_not_underscore in auto)
  have 4: "map (\<lambda>c. if is_ident_char c then c else CHR ''-'') s = s"
    by (rule map_idI) (simp add: all)
  have 5: "collapse_hyphens s = s" using assms(1) by (simp add: clean_def collapse_id)
  have l: "lstrip (\<lambda>c. c = CHR ''-'') s = s"
    using assms(1) unfolding lstrip_def clean_def by (cases s) auto
  have "dropWhile (\<lambda>c. c = CHR ''-'') (rev s) = rev s"
    using assms(1) unfolding clean_def by (cases "rev s") (auto simp: last_rev [symmetric] hd_rev)
  then have r: "rstrip (\<lambda>c. c = CHR ''-'') s = s" unfolding rstrip_def by simp
  have 6: "strip (\<lambda>c. c = CHR ''-'') s = s" unfolding strip_def by (simp add: l r)
  show ?thesis using assms(2) by (simp add: sanitize_feature_name_def 1 2 3 4 5 6)
qed

lemma clean_matches: "clean s \<Longrightarrow> s \<noteq> [] \<Longrightarrow> matches_identifier s"
proof -
  assume c: "clean s" and ne: "s \<noteq> []"
  then obtain a cs where s: "s = a # cs" by (cases s) auto
  from c s have all: "\<forall>c\<in>set (a # cs). is_ident_char c"
    and h: "a \<noteq> CHR ''-''" and l: "last (a # cs) \<noteq> CHR ''-''"
    by (simp_all add: clean_def list_all_iff)
  from all h have a: "is_lower_alnum a" by (simp add: is_ident_char_def)
  have "cs = [] \<or> (list_all is_ident_char (butlast cs) \<and> is_lower_alnum (last cs))"
  proof (cases "cs = []")
    case True
    then show ?thesis ..
  next
    case False
    with l have "last cs \<noteq> CHR ''-''" by simp
    moreover from False all have "is_ident_char (last cs)" by simp
    ultimately have "is_lower_alnum (last cs)" by (simp add: is_ident_char_def)
    moreover have "list_all is_ident_char (butlast cs)"
      using all by (auto simp: list_all_iff dest: in_set_butlastD)
    ultimately show ?thesis by simp
  qed
  with a show ?thesis by (simp add: matches_identifier_def s)
qed

subsection \<open>The allocation of the feature number\<close>

lemma split_on_nonempty: "split_on sep s \<noteq> []"
  by (induction s) (auto split: list.splits)

lemma split_on_no_sep: "sep \<notin> set s \<Longrightarrow> split_on sep s = [s]"
  by (induction s) auto

lemma split_on_sep: "sep \<in> set s \<Longrightarrow> \<exists>x y ys. split_on sep s = x # y # ys"
proof (induction s)
  case Nil
  then show ?case by simp
next
  case (Cons c cs)
  show ?case
  proof (cases "c = sep")
    case True
    obtain y ys where "split_on sep cs = y # ys"
      using split_on_nonempty [of sep cs] by (cases "split_on sep cs") auto
    with True show ?thesis by simp
  next
    case False
    with Cons.prems have "sep \<in> set cs" by simp
    then obtain x y ys where "split_on sep cs = x # y # ys" using Cons.IH by blast
    with False show ?thesis by simp
  qed
qed

lemma takeWhile_snoc_stop: "\<not> P x \<Longrightarrow> takeWhile P (xs @ [x]) = takeWhile P xs"
  by (induction xs) auto

lemma takeWhile_snoc_go:
  "P x \<Longrightarrow> takeWhile P (xs @ [x]) = (if \<forall>y\<in>set xs. P y then xs @ [x] else takeWhile P xs)"
  by (induction xs) auto

lemma last_split_on: "last (split_on sep s) = rev (takeWhile (\<lambda>c. c \<noteq> sep) (rev s))"
proof (induction s)
  case Nil
  then show ?case by simp
next
  case (Cons c cs)
  show ?case
  proof (cases "c = sep")
    case True
    then have "last (split_on sep (c # cs)) = last (split_on sep cs)"
      by (simp add: split_on_nonempty)
    also have "\<dots> = rev (takeWhile (\<lambda>c. c \<noteq> sep) (rev cs))" by (rule Cons.IH)
    also have "\<dots> = rev (takeWhile (\<lambda>c. c \<noteq> sep) (rev (c # cs)))"
      using True by (simp add: takeWhile_snoc_stop)
    finally show ?thesis .
  next
    case False
    show ?thesis
    proof (cases "sep \<in> set cs")
      case True
      then obtain x y ys where sp: "split_on sep cs = x # y # ys" using split_on_sep by blast
      then have "last (split_on sep (c # cs)) = last (split_on sep cs)"
        using False by simp
      also have "\<dots> = rev (takeWhile (\<lambda>c. c \<noteq> sep) (rev cs))" by (rule Cons.IH)
      also have "\<dots> = rev (takeWhile (\<lambda>c. c \<noteq> sep) (rev (c # cs)))"
        using False True by (auto simp: takeWhile_snoc_go)
      finally show ?thesis .
    next
      case nosep: False
      then have a: "split_on sep (c # cs) = [c # cs]" using False by (simp add: split_on_no_sep)
      have b: "takeWhile (\<lambda>c. c \<noteq> sep) (rev (c # cs)) = rev (c # cs)"
        using False nosep by (auto simp: takeWhile_eq_all_conv)
      show ?thesis unfolding a b by simp
    qed
  qed
qed

lemma not_digit_hyphen: "\<not> is_digit CHR ''-''"
  by (simp add: is_digit_def char_le_nat)

lemma pattern_match_spec:
  "pattern_match r = (if three_digits_hyphen r then Some (take 3 r) else None)"
proof (cases r)
  case Nil
  then show ?thesis by (simp add: pattern_match_def three_digits_hyphen_def)
next
  case r1: (Cons a r1)
  show ?thesis
  proof (cases r1)
    case Nil
    with r1 show ?thesis by (simp add: pattern_match_def three_digits_hyphen_def)
  next
    case r2: (Cons b r2)
    show ?thesis
    proof (cases r2)
      case Nil
      with r1 r2 show ?thesis by (simp add: pattern_match_def three_digits_hyphen_def)
    next
      case r3: (Cons c r3)
      show ?thesis
      proof (cases r3)
        case Nil
        with r1 r2 r3 show ?thesis by (simp add: pattern_match_def three_digits_hyphen_def)
      next
        case (Cons d r4)
        with r1 r2 r3 show ?thesis
          using not_digit_hyphen by (auto simp: pattern_match_def three_digits_hyphen_def)
      qed
    qed
  qed
qed

lemma int_str_three: "length r \<ge> 3 \<Longrightarrow> int_str (take 3 r) = leading_number r"
  by (cases r; cases "tl r"; cases "tl (tl r)") (auto simp: int_str_def leading_number_def)

lemma collect_spec: "collect_feature_numbers bs = matched_numbers bs"
proof (induction bs)
  case Nil
  then show ?case by (simp add: matched_numbers_def)
next
  case (Cons b bs)
  have len: "three_digits_hyphen r \<Longrightarrow> 3 \<le> length r" for r
    using length_takeWhile_le [of is_digit r] by (simp add: three_digits_hyphen_def)
  show ?case
    using Cons.IH len [of "after_final_slash b"]
    by (simp add: matched_numbers_def last_split_on pattern_match_spec int_str_three
        after_final_slash_def [symmetric])
qed

lemma max_list_Max: "xs \<noteq> [] \<Longrightarrow> max_list xs = Max (set xs)"
  using Max.set_eq_fold [of "hd xs" "tl xs"] by (cases xs) simp_all

lemma digit_char_digit: "d < 10 \<Longrightarrow> is_digit (digit_char d)"
proof -
  assume "d < 10"
  then have "digit_char d \<in> set ''0123456789''" unfolding digit_char_def by (intro nth_mem) simp
  then show ?thesis by (auto simp: is_digit_def char_le_nat)
qed

lemma str_nat_lt_1000:
  "k < 1000 \<Longrightarrow> str_nat k =
     (if k < 10 then [digit_char k]
      else if k < 100 then [digit_char (k div 10), digit_char (k mod 10)]
      else [digit_char (k div 100), digit_char (k div 10 mod 10), digit_char (k mod 10)])"
proof -
  assume k: "k < 1000"
  show ?thesis
  proof (cases "k < 10")
    case True
    then show ?thesis by (simp add: str_nat.simps [of k])
  next
    case False
    note k10 = this
    show ?thesis
    proof (cases "k < 100")
      case True
      then have "k div 10 < 10" by simp
      then have "str_nat (k div 10) = [digit_char (k div 10)]" by (simp add: str_nat.simps [of "k div 10"])
      with k10 True show ?thesis by (simp add: str_nat.simps [of k])
    next
      case False
      then have a: "\<not> k div 10 < 10" by simp
      have b: "k div 10 div 10 < 10" using k by simp
      have c: "k div 10 div 10 = k div 100" by (simp add: div_mult2_eq [symmetric])
      have "str_nat (k div 10) = [digit_char (k div 100), digit_char (k div 10 mod 10)]"
        using a b c by (simp add: str_nat.simps [of "k div 10"] str_nat.simps [of "k div 100"])
      with k10 False show ?thesis by (simp add: str_nat.simps [of k])
    qed
  qed
qed

lemma digit_char_0: "digit_char 0 = CHR ''0''"
  by (simp add: digit_char_def)

lemma format_03d_zero_pad3: "0 \<le> n \<Longrightarrow> n \<le> 999 \<Longrightarrow> format_03d n = zero_pad3 n"
proof -
  assume n: "0 \<le> n" "n \<le> 999"
  then have k: "nat n < 1000" by simp
  show ?thesis
    using n str_nat_lt_1000 [OF k]
    by (auto simp: format_03d_def zero_pad3_def digit_char_0 numeral_2_eq_2 numeral_3_eq_3)
qed

lemma zero_pad3_digits: "0 \<le> n \<Longrightarrow> n \<le> 999 \<Longrightarrow> list_all is_digit (zero_pad3 n)"
  by (simp add: zero_pad3_def digit_char_digit)

lemma FeatureNumber_new_ok:
  "1 \<le> n \<Longrightarrow> n \<le> 999 \<Longrightarrow>
   FeatureNumber_new n (format_03d n) = Inr \<lparr>number = n, formatted = zero_pad3 n\<rparr>"
  using format_03d_zero_pad3 [of n] zero_pad3_digits [of n]
  by (simp add: FeatureNumber_new_def) (simp add: zero_pad3_def)

lemma digit_value_range: "is_digit c \<Longrightarrow> 0 \<le> digit_value c \<and> digit_value c \<le> 9"
  by (auto simp: is_digit_def digit_value_def char_le_nat)

lemma leading_number_nonneg: "three_digits_hyphen r \<Longrightarrow> 0 \<le> leading_number r"
proof -
  assume t: "three_digits_hyphen r"
  have "i < 3 \<Longrightarrow> is_digit (r ! i)" for i
    using t nth_length_takeWhile [of is_digit r] takeWhile_nth [of i is_digit r]
      nth_mem [of i "takeWhile is_digit r"] set_takeWhileD [of "r ! i" is_digit r]
    by (auto simp: three_digits_hyphen_def)
  from this [of 0] this [of 1] this [of 2] show ?thesis
    using digit_value_range by (simp add: leading_number_def)
qed

lemma matched_nonneg: "x \<in> set (matched_numbers bs) \<Longrightarrow> 0 \<le> x"
  by (auto simp: matched_numbers_def leading_number_nonneg)

lemma next_number_spec:
  "get_next_feature_number bs =
     (let matched = matched_numbers bs;
          next_number = (if matched = [] then 1 else Max (set matched) + 1)
      in if next_number > 999
         then Inl (ValueError (''Feature number '' @ str_int next_number @ '' exceeds maximum of 999''))
         else Inr \<lparr>number = next_number, formatted = zero_pad3 next_number\<rparr>)"
proof (cases "matched_numbers bs = []")
  case True
  then show ?thesis
    using FeatureNumber_new_ok [of 1]
    by (simp add: get_next_feature_number_def collect_spec)
next
  case False
  define m where "m = Max (set (matched_numbers bs))"
  from False have "m \<in> set (matched_numbers bs)" unfolding m_def by simp
  then have m0: "0 \<le> m" by (rule matched_nonneg)
  have g: "get_next_feature_number bs =
      (if m + 1 > 999
       then Inl (ValueError (''Feature number '' @ str_int (m + 1) @ '' exceeds maximum of 999''))
       else FeatureNumber_new (m + 1) (format_03d (m + 1)))"
    using False by (simp add: get_next_feature_number_def collect_spec max_list_Max m_def Let_def)
  have "\<not> m + 1 > 999 \<Longrightarrow>
      FeatureNumber_new (m + 1) (format_03d (m + 1)) = Inr \<lparr>number = m + 1, formatted = zero_pad3 (m + 1)\<rparr>"
    using m0 by (intro FeatureNumber_new_ok) simp_all
  with g show ?thesis using False unfolding m_def [symmetric] Let_def by auto
qed

subsection \<open>Claims on worktree.py\<close>

lemma allocate_example_1:
  "get_next_feature_number [''main'', ''001-add-auth'', ''002-fix-bug'', ''003-new''] =
     Inr \<lparr>number = 4, formatted = ''004''\<rparr>"
  by code_simp

lemma allocate_example_2:
  "get_next_feature_number [''main'', ''origin/005-remote''] = Inr \<lparr>number = 6, formatted = ''006''\<rparr>"
  by code_simp

lemma allocate_example_3:
  "get_next_feature_number [''main'', ''999-last''] =
     Inl (ValueError ''Feature number 1000 exceeds maximum of 999'')"
  by code_simp

text \<open>
  Claim C3. For every list of branch names, the allocation reduces each name to the
  substring after its final \<open>/\<close>, keeps exactly the reduced names that begin with exactly
  three digits followed by a hyphen, and returns the FeatureNumber whose number is the
  maximum of the matched numbers plus one (1 when none matches), with \<open>formatted\<close> its
  three-digit zero-padded form; it fails with a ValueError exactly when that next number
  exceeds 999. The three examples of the specification evaluate as it says.
\<close>

theorem get_next_feature_number_allocates:
  "get_next_feature_number bs =
     (let matched = matched_numbers bs;
          next_number = (if matched = [] then 1 else Max (set matched) + 1)
      in if next_number > 999
         then Inl (ValueError (''Feature number '' @ str_int next_number @ '' exceeds maximum of 999''))
         else Inr \<lparr>number = next_number, formatted = zero_pad3 next_number\<rparr>)
   \<and> get_next_feature_number [''main'', ''001-add-auth'', ''002-fix-bug'', ''003-new''] =
       Inr \<lparr>number = 4, formatted = ''004''\<rparr>
   \<and> get_next_feature_number [''main'', ''origin/005-remote''] = Inr \<lparr>number = 6, formatted = ''006''\<rparr>
   \<and> get_next_feature_number [''main'', ''999-last''] =
       Inl (ValueError ''Feature number 1000 exceeds maximum of 999'')"
  using next_number_spec [of bs] allocate_example_1 allocate_example_2 allocate_example_3
  by blast

theorem get_next_feature_number_allocates_witness:
  "get_next_feature_number [''main'', ''0123-long'', ''12-short'', ''x041-late'', ''origin/feat/041-deep'', ''007-b''] =
     Inr \<lparr>number = 42, formatted = ''042''\<rparr>"
proof -
  have m: "matched_numbers [''main'', ''0123-long'', ''12-short'', ''x041-late'', ''origin/feat/041-deep'', ''007-b'']
      = [41, 7]"
    by code_simp
  have z: "zero_pad3 42 = ''042''" by code_simp
  show ?thesis
    using get_next_feature_number_allocates
      [of "[''main'', ''0123-long'', ''12-short'', ''x041-late'', ''origin/feat/041-deep'', ''007-b'']"]
    unfolding m by (simp add: z)
qed

text \<open>
  Claim C5. Sanitization with the default \<open>max_length\<close> is idempotent: sanitizing a
  sanitized name gives the same name, for every input string.
\<close>

theorem sanitize_idempotent:
  "sanitize_feature_name_default (sanitize_feature_name_default x) = sanitize_feature_name_default x"
  unfolding sanitize_feature_name_default_def
  using clean_sanitize [of x 50] length_sanitize [of 50 x]
  by (intro sanitize_clean_id) simp_all

theorem sanitize_idempotent_witness:
  "sanitize_feature_name_default (sanitize_feature_name_default ''Fix bug #123 (critical!)'') =
     ''fix-bug-123-critical''"
proof -
  have "sanitize_feature_name_default ''Fix bug #123 (critical!)'' = ''fix-bug-123-critical''"
    by code_simp
  with sanitize_idempotent [of "''Fix bug #123 (critical!)''"] show ?thesis by simp
qed

text \<open>
  Claim C6, as stated: for every input and every \<open>max_length\<close>, a non-empty output
  matches the identifier pattern and is at most \<open>max_length\<close> long. It fails for a
  negative \<open>max_length\<close>: the slice \<open>sanitized[:-1]\<close> drops the last character only.
\<close>

theorem sanitize_length_counterexample:
  "sanitize_feature_name ''abc'' (- 1) = ''ab'' \<and>
   sanitize_feature_name ''abc'' (- 1) \<noteq> [] \<and>
   \<not> int (length (sanitize_feature_name ''abc'' (- 1))) \<le> - 1"
proof -
  have "sanitize_feature_name ''abc'' (- 1) = ''ab''" by code_simp
  then show ?thesis by simp
qed

text \<open>
  Claim C6, amended. For every input and every \<open>max_length\<close>, a non-empty output matches
  \<open>^[a-z0-9]([a-z0-9-]*[a-z0-9])?$\<close> and has no two consecutive hyphens; its length is at
  most \<open>max_length\<close> whenever \<open>max_length\<close> is not negative.
\<close>

theorem sanitize_output_shape:
  "sanitize_feature_name name max_length \<noteq> [] \<Longrightarrow>
     matches_identifier (sanitize_feature_name name max_length) \<and>
     no_double_hyphen (sanitize_feature_name name max_length) \<and>
     (0 \<le> max_length \<longrightarrow> int (length (sanitize_feature_name name max_length)) \<le> max_length)"
  using clean_sanitize [of name max_length] clean_matches [of "sanitize_feature_name name max_length"]
    length_sanitize [of max_length name]
  by (simp add: clean_def)

theorem sanitize_output_shape_witness:
  "sanitize_feature_name ''Fix bug #123 (critical!)'' 8 = ''fix-bug'' \<and>
   matches_identifier (sanitize_feature_name ''Fix bug #123 (critical!)'' 8) \<and>
   no_double_hyphen (sanitize_feature_name ''Fix bug #123 (critical!)'' 8) \<and>
   int (length (sanitize_feature_name ''Fix bug #123 (critical!)'' 8)) \<le> 8"
proof -
  have e: "sanitize_feature_name ''Fix bug #123 (critical!)'' 8 = ''fix-bug''" by code_simp
  then have "sanitize_feature_name ''Fix bug #123 (critical!)'' 8 \<noteq> []" by simp
  from sanitize_output_shape [OF this] e show ?thesis by simp
qed

subsection \<open>Runs of the pipeline\<close>

lemma calls_simps [simp]:
  "calls [] = []"
  "calls (Call c # tr) = c # calls tr"
  "calls (Run d a # tr) = calls tr"
  "calls (Progress s # tr) = calls tr"
  "calls (Err s # tr) = calls tr"
  "calls (tr @ tr') = calls tr @ calls tr'"
  by (simp_all add: calls_def)

lemma quiet_simps [simp]:
  "quiet []"
  "quiet (Call c # tr) = quiet tr"
  "quiet (Run (Some d) a # tr) = quiet tr"
  "quiet (Run None a # tr) = (\<not> is_worktree_add a \<and> quiet tr)"
  "quiet (Err s # tr) = quiet tr"
  "quiet (tr @ tr') = (quiet tr \<and> quiet tr')"
  by (auto simp: quiet_def)

lemma quiet_Progress:
  "quiet (Progress s # tr) = ((\<forall>f. s \<noteq> ''Next feature number: '' @ f) \<and> quiet tr)"
  by (auto simp: quiet_def)

lemma report_failure_quiet [simp]:
  "calls (report_failure v) = []" "quiet (report_failure v)"
  by (auto simp: report_failure_def split: option.splits)

lemma run_ok_stop:
  "quiet evs \<Longrightarrow> calls evs = [c] \<Longrightarrow> early out \<Longrightarrow>
   c \<noteq> C_launch_claude_code \<Longrightarrow> c \<noteq> C_create_worktree \<Longrightarrow>
   run_ok e fr (c # cs) (evs, out)"
  by (auto simp: run_ok_def tail_ok_def rejects_empty_def quiet_def early_def)

lemma run_ok_pre:
  "run_ok e fr cs r \<Longrightarrow> quiet evs \<Longrightarrow> calls evs = [c] \<Longrightarrow>
   c \<noteq> C_launch_claude_code \<Longrightarrow> c \<noteq> C_create_worktree \<Longrightarrow>
   run_ok e fr (c # cs) (pre evs r)"
  by (auto simp: run_ok_def tail_ok_def rejects_empty_def quiet_def pre_def)

lemma run_ok_pre0:
  "run_ok e fr cs r \<Longrightarrow> quiet evs \<Longrightarrow> calls evs = [] \<Longrightarrow> run_ok e fr cs (pre evs r)"
  by (auto simp: run_ok_def tail_ok_def rejects_empty_def quiet_def pre_def)

lemma tail_ok_11: "tail_ok e [C_launch_claude_code] (cli_11_launch e cfg req)"
  by (auto simp: tail_ok_def cli_11_launch_def launch_claude_code_def Let_def)

lemma create_worktree_fails:
  "raises_provisioning_error (run e None [''git'', ''worktree'', ''add'', path_str p, ''-b'', b, base]) \<Longrightarrow>
   \<exists>m. create_worktree e p b base =
         ([Call C_create_worktree, Run None [''git'', ''worktree'', ''add'', path_str p, ''-b'', b, base]],
          Inl (RuntimeError m))"
  by (auto simp: create_worktree_def Let_def raises_provisioning_error_def split: proc_result.splits)

lemma tail_ok_10: "tail_ok e [C_create_worktree, C_launch_claude_code] (cli_10_create e cfg req)"
proof -
  let ?a = "[''git'', ''worktree'', ''add'', path_str (wc_directory_path cfg), ''-b'',
             wc_branch_name cfg, wc_base_branch cfg]"
  let ?own = "[Progress (''Creating worktree at .worktrees/'' @ wc_branch_name cfg),
               Call C_create_worktree, Run None ?a]"
  show ?thesis
  proof (cases "raises_provisioning_error (run e None ?a)")
    case True
    then obtain m where "create_worktree e (wc_directory_path cfg) (wc_branch_name cfg) (wc_base_branch cfg)
        = ([Call C_create_worktree, Run None ?a], Inl (RuntimeError m))"
      using create_worktree_fails by blast
    then have "cli_10_create e cfg req = (?own @ [Err (''Error: '' @ m)], Exit 2)"
      by (simp add: cli_10_create_def pre_def)
    then show ?thesis by (simp add: tail_ok_def)
  next
    case False
    have "cli_10_create e cfg req = pre ?own (cli_11_launch e cfg req) \<or>
          (\<exists>x. cli_10_create e cfg req = (?own, Uncaught x))"
      using False
      by (auto simp: cli_10_create_def create_worktree_def Let_def pre_def
          raises_provisioning_error_def split: proc_result.splits)
    then show ?thesis
    proof
      assume c: "cli_10_create e cfg req = pre ?own (cli_11_launch e cfg req)"
      have l: "\<And>argv. Run None argv \<notin> set (fst (cli_11_launch e cfg req))"
        by (auto simp: cli_11_launch_def launch_claude_code_def Let_def)
      show ?thesis
        using tail_ok_11 [of e cfg req] False l unfolding c
        by (auto simp: tail_ok_def pre_def)
    next
      assume "\<exists>x. cli_10_create e cfg req = (?own, Uncaught x)"
      then show ?thesis using False by (auto simp: tail_ok_def)
    qed
  qed
qed

lemma tail_ok_9: "tail_ok e [C_create_worktree, C_launch_claude_code] (cli_9_config e root mb fn req)"
  by (simp add: cli_9_config_def WorktreeConfig_new_def Let_def tail_ok_10)

lemma tail_ok_8:
  "tail_ok e [C_create_worktree, C_launch_claude_code] (cli_8_feature_request e fr root mb fn)"
  by (cases "FeatureRequest_new fr (sanitize_feature_name_default fr)")
    (simp_all add: cli_8_feature_request_def tail_ok_9, simp add: tail_ok_def)

lemma stage_8_empty:
  "sanitize_feature_name_default fr = [] \<Longrightarrow>
   \<exists>m. cli_8_feature_request e fr root mb fn = ([Err m], Exit 3)"
  by (simp add: cli_8_feature_request_def FeatureRequest_new_def)

lemma tail_ok_pre:
  "tail_ok e cs r \<Longrightarrow> \<forall>argv. Run None argv \<in> set evs \<longrightarrow> \<not> is_worktree_add argv \<Longrightarrow>
   calls evs = [c] \<Longrightarrow> c \<noteq> C_launch_claude_code \<Longrightarrow> tail_ok e (c # cs) (pre evs r)"
  by (auto simp: tail_ok_def pre_def)

lemma tail_ok_stop:
  "\<forall>argv. Run None argv \<in> set evs \<longrightarrow> \<not> is_worktree_add argv \<Longrightarrow>
   calls evs = [c] \<Longrightarrow> c \<noteq> C_launch_claude_code \<Longrightarrow> tail_ok e (c # cs) (evs, out)"
  by (auto simp: tail_ok_def)

lemma list_all_branches_events:
  "fst (list_all_branches e) =
     [Call C_list_all_branches, Run None [''git'', ''branch'', ''-a'', ''--format=%(refname:short)'']]"
  by (simp add: list_all_branches_def Let_def)

lemma stage_6_cases:
  "(\<exists>evs out. cli_6_number e fr root mb = (fst (list_all_branches e) @ evs, out) \<and> early out \<and>
       (evs = [] \<or> (\<exists>m. evs = [Err m]))) \<or>
   (\<exists>fn. cli_6_number e fr root mb =
       pre (fst (list_all_branches e) @ [Progress (''Next feature number: '' @ formatted fn)])
         (cli_8_feature_request e fr root mb fn))"
proof (cases "list_all_branches e")
  case (Pair evs r)
  then have evs: "fst (list_all_branches e) = evs" by simp
  show ?thesis
  proof (cases r)
    case (Inl x)
    with Pair show ?thesis by (simp add: cli_6_number_def early_def)
  next
    case (Inr branches)
    show ?thesis
    proof (cases "get_next_feature_number branches")
      case (Inl x)
      with Pair Inr show ?thesis by (cases x) (simp_all add: cli_6_number_def early_def)
    next
      case inr: (Inr fn)
      with Pair Inr show ?thesis by (intro disjI2 exI [of _ fn]) (simp add: cli_6_number_def)
    qed
  qed
qed

lemma run_ok_6:
  "run_ok e fr [C_list_all_branches, C_create_worktree, C_launch_claude_code] (cli_6_number e fr root mb)"
proof -
  let ?l = "[Call C_list_all_branches, Run None [''git'', ''branch'', ''-a'', ''--format=%(refname:short)'']]"
  have nwa: "\<not> is_worktree_add [''git'', ''branch'', ''-a'', ''--format=%(refname:short)'']"
    by (simp add: is_worktree_add_def)
  from stage_6_cases [of e fr root mb] show ?thesis
  proof
    assume "\<exists>evs out. cli_6_number e fr root mb = (fst (list_all_branches e) @ evs, out) \<and> early out \<and>
       (evs = [] \<or> (\<exists>m. evs = [Err m]))"
    then obtain evs out where c: "cli_6_number e fr root mb = (?l @ evs, out)" and o: "early out"
      and ev: "evs = [] \<or> (\<exists>m. evs = [Err m])"
      unfolding list_all_branches_events by blast
    from ev nwa o show ?thesis unfolding c
      by (auto simp: run_ok_def tail_ok_def rejects_empty_def)
  next
    assume "\<exists>fn. cli_6_number e fr root mb =
       pre (fst (list_all_branches e) @ [Progress (''Next feature number: '' @ formatted fn)])
         (cli_8_feature_request e fr root mb fn)"
    then obtain fn where c: "cli_6_number e fr root mb =
       pre (?l @ [Progress (''Next feature number: '' @ formatted fn)]) (cli_8_feature_request e fr root mb fn)"
      unfolding list_all_branches_events by blast
    have t: "tail_ok e [C_list_all_branches, C_create_worktree, C_launch_claude_code] (cli_6_number e fr root mb)"
      unfolding c using nwa by (intro tail_ok_pre tail_ok_8) auto
    have r: "rejects_empty fr (cli_6_number e fr root mb)"
    proof (cases "sanitize_feature_name_default fr = []")
      case True
      from stage_8_empty [OF True, of e root mb fn] obtain m where
        "cli_8_feature_request e fr root mb fn = ([Err m], Exit 3)" by blast
      then show ?thesis unfolding c by (simp add: rejects_empty_def pre_def)
    next
      case False
      then show ?thesis by (simp add: rejects_empty_def)
    qed
    from t r show ?thesis by (simp add: run_ok_def)
  qed
qed

lemma run_ok_5:
  "run_ok e fr [C_git_fetch, C_list_all_branches, C_create_worktree, C_launch_claude_code]
     (cli_5_fetch e fr root mb)"
proof -
  obtain evs r where g: "git_fetch e = (evs, r)" by (cases "git_fetch e")
  then have q: "quiet evs" "calls evs = [C_git_fetch]"
    by (auto simp: git_fetch_def Let_def is_worktree_add_def)
  have "run_ok e fr [C_git_fetch, C_list_all_branches, C_create_worktree, C_launch_claude_code]
     (case r of Inl x \<Rightarrow> (evs, Uncaught x)
      | Inr ok \<Rightarrow> pre (evs @ (if ok then []
                       else [Err ''  Warning: git fetch failed, continuing without remote updates'']))
              (cli_6_number e fr root mb))"
  proof (cases r)
    case (Inl x)
    then show ?thesis using q by (simp add: run_ok_stop early_def)
  next
    case (Inr ok)
    then show ?thesis using q by (simp add: run_ok_pre run_ok_6)
  qed
  then have "run_ok e fr [C_git_fetch, C_list_all_branches, C_create_worktree, C_launch_claude_code]
     (pre [Progress ''Fetching remote branches...'']
        (case r of Inl x \<Rightarrow> (evs, Uncaught x)
         | Inr ok \<Rightarrow> pre (evs @ (if ok then []
                       else [Err ''  Warning: git fetch failed, continuing without remote updates'']))
              (cli_6_number e fr root mb)))"
    by (rule run_ok_pre0) (simp_all add: quiet_Progress)
  then show ?thesis by (simp add: cli_5_fetch_def g)
qed

lemma run_ok_4:
  "run_ok e fr [C_is_claude_code_installed, C_git_fetch, C_list_all_branches, C_create_worktree,
     C_launch_claude_code] (cli_4_claude e fr root mb)"
proof -
  obtain evs r where g: "is_claude_code_installed e = (evs, r)" by (cases "is_claude_code_installed e")
  then have q: "quiet evs" "calls evs = [C_is_claude_code_installed]"
    by (auto simp: is_claude_code_installed_def Let_def is_worktree_add_def)
  show ?thesis
  proof (cases r)
    case (Inl x)
    then show ?thesis using q g by (simp add: cli_4_claude_def run_ok_stop early_def)
  next
    case (Inr v)
    then show ?thesis using q g
      by (simp add: cli_4_claude_def run_ok_stop early_def run_ok_pre run_ok_5 quiet_Progress)
  qed
qed

lemma required_paths_events:
  "quiet (fst (check_required_paths e p mb gs)) \<and> calls (fst (check_required_paths e p mb gs)) = []"
  by (induction gs) (auto simp: Let_def pre_def split: proc_result.splits)

lemma spec_kit_on_branch_events:
  "quiet (fst (check_spec_kit_on_branch e p mb)) \<and> calls (fst (check_spec_kit_on_branch e p mb)) = []"
  using required_paths_events [of e p mb]
  by (auto simp: check_spec_kit_on_branch_def Let_def pre_def split: proc_result.splits)

lemma spec_kit_events:
  "quiet (fst (is_spec_kit_initialized e p mb)) \<and>
   calls (fst (is_spec_kit_initialized e p mb)) = [C_is_spec_kit_initialized]"
  using spec_kit_on_branch_events [of e p mb]
  by (auto simp: is_spec_kit_initialized_def pre_def split: option.splits sum.splits)

lemma run_ok_3:
  "run_ok e fr [C_is_spec_kit_initialized, C_is_claude_code_installed, C_git_fetch,
     C_list_all_branches, C_create_worktree, C_launch_claude_code] (cli_3_spec_kit e fr root mb)"
proof -
  obtain evs r where g: "is_spec_kit_initialized e root mb = (evs, r)"
    by (cases "is_spec_kit_initialized e root mb")
  with spec_kit_events [of e root mb] have q: "quiet evs" "calls evs = [C_is_spec_kit_initialized]"
    by simp_all
  show ?thesis
  proof (cases r)
    case (Inl x)
    then show ?thesis using q g by (simp add: cli_3_spec_kit_def run_ok_stop early_def)
  next
    case (Inr v)
    then show ?thesis using q g
      by (simp add: cli_3_spec_kit_def run_ok_stop early_def run_ok_pre run_ok_4 quiet_Progress)
  qed
qed

lemma run_ok_main_branch:
  "run_ok e fr [C_get_main_branch, C_is_spec_kit_initialized, C_is_claude_code_installed, C_git_fetch,
     C_list_all_branches, C_create_worktree, C_launch_claude_code] (cli_main_branch e fr root)"
proof -
  obtain evs r where g: "get_main_branch e = (evs, r)" by (cases "get_main_branch e")
  then have q: "quiet evs" "calls evs = [C_get_main_branch]"
    by (auto simp: get_main_branch_def Let_def is_worktree_add_def split: proc_result.splits if_splits)
  show ?thesis
  proof (cases r)
    case (Inl x)
    then show ?thesis using q g by (cases x) (simp_all add: cli_main_branch_def run_ok_stop early_def)
  next
    case (Inr v)
    then show ?thesis using q g by (simp add: cli_main_branch_def run_ok_pre run_ok_3)
  qed
qed

lemma run_ok_repo_root:
  "run_ok e fr [C_get_repo_root, C_get_main_branch, C_is_spec_kit_initialized,
     C_is_claude_code_installed, C_git_fetch, C_list_all_branches, C_create_worktree,
     C_launch_claude_code] (cli_repo_root e fr)"
proof -
  obtain evs r where g: "get_repo_root e = (evs, r)" by (cases "get_repo_root e")
  then have q: "quiet evs" "calls evs = [C_get_repo_root]"
    by (auto simp: get_repo_root_def Let_def is_worktree_add_def)
  show ?thesis
  proof (cases r)
    case (Inl x)
    then show ?thesis using q g by (cases x) (simp_all add: cli_repo_root_def run_ok_stop early_def)
  next
    case (Inr v)
    then show ?thesis using q g
      by (simp add: cli_repo_root_def run_ok_pre run_ok_main_branch quiet_Progress)
  qed
qed

lemma run_ok_2:
  "run_ok e fr [C_is_git_repository, C_get_repo_root, C_get_main_branch, C_is_spec_kit_initialized,
     C_is_claude_code_installed, C_git_fetch, C_list_all_branches, C_create_worktree,
     C_launch_claude_code] (cli_2_repository e fr)"
proof -
  obtain evs r where g: "is_git_repository e (cwd e) = (evs, r)" by (cases "is_git_repository e (cwd e)")
  then have q: "quiet evs" "calls evs = [C_is_git_repository]"
    by (auto simp: is_git_repository_def Let_def is_worktree_add_def)
  show ?thesis
  proof (cases r)
    case (Inl x)
    then show ?thesis using q g by (simp add: cli_2_repository_def run_ok_stop early_def)
  next
    case (Inr v)
    then show ?thesis using q g
      by (simp add: cli_2_repository_def run_ok_stop early_def run_ok_pre run_ok_repo_root)
  qed
qed

lemma run_ok_1: "run_ok e fr pipeline_calls (cli_1_git e fr)"
proof -
  obtain evs r where g: "validate_git_installed e = (evs, r)" by (cases "validate_git_installed e")
  then have q: "quiet evs" "calls evs = [C_validate_git_installed]"
    by (auto simp: validate_git_installed_def Let_def is_worktree_add_def)
  show ?thesis
  proof (cases r)
    case (Inl x)
    then show ?thesis using q g by (simp add: cli_1_git_def pipeline_calls_def run_ok_stop early_def)
  next
    case (Inr v)
    then show ?thesis using q g
      by (simp add: cli_1_git_def pipeline_calls_def run_ok_stop early_def run_ok_pre run_ok_2
          quiet_Progress)
  qed
qed

lemma run_ok_cli: "run_ok e fr pipeline_calls (cli e fr)"
proof (cases "fr = [] \<or> strip_ws fr = []")
  case True
  then show ?thesis by (auto simp: cli_def run_ok_def tail_ok_def rejects_empty_def)
next
  case False
  then have "cli e fr = pre [Progress ''Validating prerequisites...''] (cli_1_git e fr)"
    by (simp add: cli_def)
  then show ?thesis using run_ok_1 by (simp add: run_ok_pre0 quiet_Progress)
qed

lemma fails_1:
  assumes nb: "\<not> (fr = [] \<or> strip_ws fr = [])"
    and v: "snd (validate_git_installed e) = Inr v" "\<not> passed v"
  shows "snd (cli e fr) = Exit 1 \<and> calls (fst (cli e fr)) = [C_validate_git_installed] \<and>
         (\<exists>evs. fst (cli e fr) = evs @ report_failure v)"
proof -
  obtain evs where "validate_git_installed e = (evs, Inr v)" "calls evs = [C_validate_git_installed]"
    using v(1) by (cases "validate_git_installed e") (auto simp: validate_git_installed_def Let_def)
  then show ?thesis using nb v(2) by (simp add: cli_def cli_1_git_def pre_def)
qed

lemma fails_2:
  assumes nb: "\<not> (fr = [] \<or> strip_ws fr = [])"
    and v1: "snd (validate_git_installed e) = Inr v1" "passed v1"
    and v2: "snd (is_git_repository e (cwd e)) = Inr False"
  shows "snd (cli e fr) = Exit 1 \<and>
         calls (fst (cli e fr)) = [C_validate_git_installed, C_is_git_repository] \<and>
         (\<exists>evs. fst (cli e fr) = evs @ [Err ''Error: Not in a git repository'',
               Err ''  Run 'git init' or navigate to an existing repository''])"
proof -
  obtain evs1 where 1: "validate_git_installed e = (evs1, Inr v1)" "calls evs1 = [C_validate_git_installed]"
    using v1(1) by (cases "validate_git_installed e") (auto simp: validate_git_installed_def Let_def)
  obtain evs2 where 2: "is_git_repository e (cwd e) = (evs2, Inr False)" "calls evs2 = [C_is_git_repository]"
    using v2 by (cases "is_git_repository e (cwd e)") (auto simp: is_git_repository_def Let_def)
  show ?thesis using nb v1(2) 1 2
    by (simp add: cli_def cli_1_git_def cli_2_repository_def pre_def)
qed

lemma fails_3:
  assumes nb: "\<not> (fr = [] \<or> strip_ws fr = [])"
    and v1: "snd (validate_git_installed e) = Inr v1" "passed v1"
    and v2: "snd (is_git_repository e (cwd e)) = Inr True"
    and root: "snd (get_repo_root e) = Inr root"
    and mb: "snd (get_main_branch e) = Inr mb"
    and v3: "snd (is_spec_kit_initialized e root mb) = Inr v3" "\<not> passed v3"
  shows "snd (cli e fr) = Exit 1 \<and>
         calls (fst (cli e fr)) = [C_validate_git_installed, C_is_git_repository, C_get_repo_root,
           C_get_main_branch, C_is_spec_kit_initialized] \<and>
         (\<exists>evs. fst (cli e fr) = evs @ report_failure v3)"
proof -
  obtain evs1 where 1: "validate_git_installed e = (evs1, Inr v1)" "calls evs1 = [C_validate_git_installed]"
    using v1(1) by (cases "validate_git_installed e") (auto simp: validate_git_installed_def Let_def)
  obtain evs2 where 2: "is_git_repository e (cwd e) = (evs2, Inr True)" "calls evs2 = [C_is_git_repository]"
    using v2 by (cases "is_git_repository e (cwd e)") (auto simp: is_git_repository_def Let_def)
  obtain evs3 where 3: "get_repo_root e = (evs3, Inr root)" "calls evs3 = [C_get_repo_root]"
    using root by (cases "get_repo_root e") (auto simp: get_repo_root_def Let_def)
  obtain evs4 where 4: "get_main_branch e = (evs4, Inr mb)" "calls evs4 = [C_get_main_branch]"
    using mb by (cases "get_main_branch e")
      (auto simp: get_main_branch_def Let_def split: proc_result.splits if_splits)
  obtain evs5 where 5: "is_spec_kit_initialized e root mb = (evs5, Inr v3)"
    "calls evs5 = [C_is_spec_kit_initialized]"
    using v3(1) spec_kit_events [of e root mb] by (cases "is_spec_kit_initialized e root mb") auto
  show ?thesis using nb v1(2) v3(2) 1 2 3 4 5
    by (simp add: cli_def cli_1_git_def cli_2_repository_def cli_repo_root_def cli_main_branch_def
        cli_3_spec_kit_def pre_def)
qed

lemma fails_4:
  assumes nb: "\<not> (fr = [] \<or> strip_ws fr = [])"
    and v1: "snd (validate_git_installed e) = Inr v1" "passed v1"
    and v2: "snd (is_git_repository e (cwd e)) = Inr True"
    and root: "snd (get_repo_root e) = Inr root"
    and mb: "snd (get_main_branch e) = Inr mb"
    and v3: "snd (is_spec_kit_initialized e root mb) = Inr v3" "passed v3"
    and v4: "snd (is_claude_code_installed e) = Inr v4" "\<not> passed v4"
  shows "snd (cli e fr) = Exit 1 \<and>
         calls (fst (cli e fr)) = [C_validate_git_installed, C_is_git_repository, C_get_repo_root,
           C_get_main_branch, C_is_spec_kit_initialized, C_is_claude_code_installed] \<and>
         (\<exists>evs. fst (cli e fr) = evs @ report_failure v4)"
proof -
  obtain evs1 where 1: "validate_git_installed e = (evs1, Inr v1)" "calls evs1 = [C_validate_git_installed]"
    using v1(1) by (cases "validate_git_installed e") (auto simp: validate_git_installed_def Let_def)
  obtain evs2 where 2: "is_git_repository e (cwd e) = (evs2, Inr True)" "calls evs2 = [C_is_git_repository]"
    using v2 by (cases "is_git_repository e (cwd e)") (auto simp: is_git_repository_def Let_def)
  obtain evs3 where 3: "get_repo_root e = (evs3, Inr root)" "calls evs3 = [C_get_repo_root]"
    using root by (cases "get_repo_root e") (auto simp: get_repo_root_def Let_def)
  obtain evs4 where 4: "get_main_branch e = (evs4, Inr mb)" "calls evs4 = [C_get_main_branch]"
    using mb by (cases "get_main_branch e")
      (auto simp: get_main_branch_def Let_def split: proc_result.splits if_splits)
  obtain evs5 where 5: "is_spec_kit_initialized e root mb = (evs5, Inr v3)"
    "calls evs5 = [C_is_spec_kit_initialized]"
    using v3(1) spec_kit_events [of e root mb] by (cases "is_spec_kit_initialized e root mb") auto
  obtain evs6 where 6: "is_claude_code_installed e = (evs6, Inr v4)"
    "calls evs6 = [C_is_claude_code_installed]"
    using v4(1) by (cases "is_claude_code_installed e") (auto simp: is_claude_code_installed_def Let_def)
  show ?thesis using nb v1(2) v3(2) v4(2) 1 2 3 4 5 6
    by (simp add: cli_def cli_1_git_def cli_2_repository_def cli_repo_root_def cli_main_branch_def
        cli_3_spec_kit_def cli_4_claude_def pre_def)
qed

lemma checks_in_order:
  "prefix (checks (fst (cli e fr)))
     [C_validate_git_installed, C_is_git_repository, C_is_spec_kit_initialized, C_is_claude_code_installed]"
proof -
  have "prefix (calls (fst (cli e fr))) pipeline_calls"
    using run_ok_cli [of e fr] by (simp add: run_ok_def tail_ok_def)
  then have "prefix (filter is_check (calls (fst (cli e fr)))) (filter is_check pipeline_calls)"
    by (rule filter_mono_prefix)
  then show ?thesis by (simp add: checks_def pipeline_calls_def is_check_def)
qed

lemma required_paths_diagnostic:
  "snd (check_required_paths e p mb gs) = Inr v \<Longrightarrow> \<not> passed v \<Longrightarrow>
   \<exists>m s. error_message v = Some m \<and> m \<noteq> [] \<and> suggestion v = Some s \<and> s \<noteq> []"
  by (induction gs) (auto simp: Let_def pre_def split: proc_result.splits if_splits)

lemma spec_kit_on_branch_diagnostic:
  "snd (check_spec_kit_on_branch e p mb) = Inr v \<Longrightarrow> \<not> passed v \<Longrightarrow>
   \<exists>m s. error_message v = Some m \<and> m \<noteq> [] \<and> suggestion v = Some s \<and> s \<noteq> []"
  using required_paths_diagnostic [of e p mb _ v]
  by (auto simp: check_spec_kit_on_branch_def Let_def pre_def split: proc_result.splits if_splits)

lemma spec_kit_diagnostic:
  "snd (is_spec_kit_initialized e p mb) = Inr v \<Longrightarrow> \<not> passed v \<Longrightarrow>
   \<exists>m s. error_message v = Some m \<and> m \<noteq> [] \<and> suggestion v = Some s \<and> s \<noteq> []"
  using spec_kit_on_branch_diagnostic [of e p mb v]
  by (auto simp: is_spec_kit_initialized_def pre_def split: option.splits sum.splits if_splits)

lemma git_installed_failure:
  "snd (validate_git_installed e) = Inr v \<Longrightarrow> \<not> passed v \<Longrightarrow>
   error_message v = Some ''Git is not installed or not in PATH'' \<and>
   suggestion v = Some ''Install git: https://git-scm.com/downloads''"
  by (auto simp: validate_git_installed_def Let_def split: proc_result.splits if_splits)

lemma claude_installed_failure:
  "snd (is_claude_code_installed e) = Inr v \<Longrightarrow> \<not> passed v \<Longrightarrow>
   error_message v = Some ''Claude Code not found in PATH'' \<and>
   suggestion v = Some ''Install Claude Code or add to PATH''"
  by (auto simp: is_claude_code_installed_def Let_def split: proc_result.splits if_splits)

lemma report_failure_lines:
  "error_message v = Some m \<Longrightarrow> suggestion v = Some s \<Longrightarrow> s \<noteq> [] \<Longrightarrow>
   report_failure v = [Err (''Error: '' @ m), Err (''  '' @ s)]"
  by (simp add: report_failure_def opt_str_def)

lemma fails_1_lines:
  assumes nb: "\<not> (fr = [] \<or> strip_ws fr = [])"
    and v: "snd (validate_git_installed e) = Inr v" "\<not> passed v"
  shows "\<exists>evs. fst (cli e fr) = evs @ [Err ''Error: Git is not installed or not in PATH'',
           Err ''  Install git: https://git-scm.com/downloads'']"
proof -
  from git_installed_failure [OF v] have "report_failure v =
      [Err (''Error: '' @ ''Git is not installed or not in PATH''),
       Err (''  '' @ ''Install git: https://git-scm.com/downloads'')]"
    by (intro report_failure_lines) simp_all
  with fails_1 [OF nb v] show ?thesis by simp
qed

lemma fails_3_lines:
  assumes nb: "\<not> (fr = [] \<or> strip_ws fr = [])"
    and v1: "snd (validate_git_installed e) = Inr v1" "passed v1"
    and v2: "snd (is_git_repository e (cwd e)) = Inr True"
    and root: "snd (get_repo_root e) = Inr root"
    and mb: "snd (get_main_branch e) = Inr mb"
    and v3: "snd (is_spec_kit_initialized e root mb) = Inr v3" "\<not> passed v3"
  shows "\<exists>m s. error_message v3 = Some m \<and> m \<noteq> [] \<and> suggestion v3 = Some s \<and> s \<noteq> [] \<and>
           (\<exists>evs. fst (cli e fr) = evs @ [Err (''Error: '' @ m), Err (''  '' @ s)])"
proof -
  from spec_kit_diagnostic [OF v3] obtain m s where
    d: "error_message v3 = Some m" "m \<noteq> []" "suggestion v3 = Some s" "s \<noteq> []" by blast
  from report_failure_lines [OF d(1) d(3) d(4)] fails_3 [OF nb v1 v2 root mb v3]
  have "\<exists>evs. fst (cli e fr) = evs @ [Err (''Error: '' @ m), Err (''  '' @ s)]" by simp
  with d show ?thesis by blast
qed

lemma fails_4_lines:
  assumes nb: "\<not> (fr = [] \<or> strip_ws fr = [])"
    and v1: "snd (validate_git_installed e) = Inr v1" "passed v1"
    and v2: "snd (is_git_repository e (cwd e)) = Inr True"
    and root: "snd (get_repo_root e) = Inr root"
    and mb: "snd (get_main_branch e) = Inr mb"
    and v3: "snd (is_spec_kit_initialized e root mb) = Inr v3" "passed v3"
    and v4: "snd (is_claude_code_installed e) = Inr v4" "\<not> passed v4"
  shows "\<exists>evs. fst (cli e fr) = evs @ [Err ''Error: Claude Code not found in PATH'',
           Err ''  Install Claude Code or add to PATH'']"
proof -
  from claude_installed_failure [OF v4] have "report_failure v4 =
      [Err (''Error: '' @ ''Claude Code not found in PATH''),
       Err (''  '' @ ''Install Claude Code or add to PATH'')]"
    by (intro report_failure_lines) simp_all
  with fails_4 [OF nb v1 v2 root mb v3 v4] show ?thesis by simp
qed

subsection \<open>Runs on a feature text whose sanitized form is empty\<close>

lemma stops_stop: "quiet evs \<Longrightarrow> early out \<Longrightarrow> stops_empty (evs, out)"
  by (simp add: stops_empty_def quiet_def)

lemma rejected_pre: "rejected_at_request r \<Longrightarrow> rejected_at_request (pre evs r)"
proof -
  assume "rejected_at_request r"
  then obtain es f m where r: "snd r = Exit 3" "C_list_all_branches \<in> set (calls (fst r))"
    "fst r = es @ [Progress (''Next feature number: '' @ f),
                   Err (''Error: Invalid feature request: '' @ m)]"
    unfolding rejected_at_request_def by blast
  from r(3) have "fst (pre evs r) = (evs @ es) @ [Progress (''Next feature number: '' @ f),
                   Err (''Error: Invalid feature request: '' @ m)]"
    by (simp add: pre_def)
  then have "\<exists>evs' f m. fst (pre evs r) = evs' @ [Progress (''Next feature number: '' @ f),
                   Err (''Error: Invalid feature request: '' @ m)]"
    by (intro exI)
  with r(1,2) show ?thesis by (simp add: rejected_at_request_def pre_def)
qed

lemma stops_pre: "stops_empty r \<Longrightarrow> quiet evs \<Longrightarrow> stops_empty (pre evs r)"
proof -
  assume s: "stops_empty r" and q: "quiet evs"
  have m: "(\<exists>f. Progress (''Next feature number: '' @ f) \<in> set (fst (pre evs r))) =
        (\<exists>f. Progress (''Next feature number: '' @ f) \<in> set (fst r))"
    using q by (auto simp: quiet_def pre_def)
  show ?thesis
  proof (cases "\<exists>f. Progress (''Next feature number: '' @ f) \<in> set (fst r)")
    case True
    with s have "rejected_at_request r" by (simp add: stops_empty_def)
    then have "rejected_at_request (pre evs r)" by (rule rejected_pre)
    with True m show ?thesis by (simp add: stops_empty_def)
  next
    case False
    with s have "early (snd r)" by (simp add: stops_empty_def)
    with False m show ?thesis by (simp add: stops_empty_def pre_def)
  qed
qed

lemma stage_8_rejects:
  "sanitize_feature_name_default fr = [] \<Longrightarrow>
   \<exists>m. cli_8_feature_request e fr root mb fn =
         ([Err (''Error: Invalid feature request: '' @ m)], Exit 3)"
  by (simp add: cli_8_feature_request_def FeatureRequest_new_def)

lemma stops_6:
  assumes s: "sanitize_feature_name_default fr = []"
  shows "stops_empty (cli_6_number e fr root mb)"
proof -
  let ?l = "[Call C_list_all_branches, Run None [''git'', ''branch'', ''-a'', ''--format=%(refname:short)'']]"
  have q: "quiet ?l" by (simp add: is_worktree_add_def)
  from stage_6_cases [of e fr root mb] show ?thesis
  proof
    assume "\<exists>evs out. cli_6_number e fr root mb = (fst (list_all_branches e) @ evs, out) \<and> early out \<and>
       (evs = [] \<or> (\<exists>m. evs = [Err m]))"
    then obtain evs out where c: "cli_6_number e fr root mb = (?l @ evs, out)" and o: "early out"
      and ev: "evs = [] \<or> (\<exists>m. evs = [Err m])"
      unfolding list_all_branches_events by blast
    from ev q have "quiet (?l @ evs)" by auto
    from this o show ?thesis unfolding c by (rule stops_stop)
  next
    assume "\<exists>fn. cli_6_number e fr root mb =
       pre (fst (list_all_branches e) @ [Progress (''Next feature number: '' @ formatted fn)])
         (cli_8_feature_request e fr root mb fn)"
    then obtain fn where c: "cli_6_number e fr root mb =
       pre (?l @ [Progress (''Next feature number: '' @ formatted fn)]) (cli_8_feature_request e fr root mb fn)"
      unfolding list_all_branches_events by blast
    from stage_8_rejects [OF s, of e root mb fn] obtain m where
      r: "cli_8_feature_request e fr root mb fn = ([Err (''Error: Invalid feature request: '' @ m)], Exit 3)"
      by blast
    have t: "cli_6_number e fr root mb =
        (?l @ [Progress (''Next feature number: '' @ formatted fn),
               Err (''Error: Invalid feature request: '' @ m)], Exit 3)"
      unfolding c r by (simp add: pre_def)
    have "rejected_at_request (cli_6_number e fr root mb)"
      unfolding rejected_at_request_def t
      by (intro conjI exI [of _ ?l] exI [of _ "formatted fn"] exI [of _ m]) simp_all
    moreover have "Progress (''Next feature number: '' @ formatted fn) \<in> set (fst (cli_6_number e fr root mb))"
      unfolding t by simp
    ultimately show ?thesis unfolding stops_empty_def by (simp only: if_True exI [of _ "formatted fn"]) 
  qed
qed

lemma stops_5:
  assumes s: "sanitize_feature_name_default fr = []"
  shows "stops_empty (cli_5_fetch e fr root mb)"
proof -
  obtain evs r where g: "git_fetch e = (evs, r)" by (cases "git_fetch e")
  then have q: "quiet evs" by (auto simp: git_fetch_def Let_def is_worktree_add_def)
  have "stops_empty
     (case r of Inl x \<Rightarrow> (evs, Uncaught x)
      | Inr ok \<Rightarrow> pre (evs @ (if ok then []
                       else [Err ''  Warning: git fetch failed, continuing without remote updates'']))
              (cli_6_number e fr root mb))"
  proof (cases r)
    case (Inl x)
    then show ?thesis using q by (simp add: stops_stop early_def)
  next
    case (Inr ok)
    then show ?thesis using q by (simp add: stops_pre stops_6 [OF s])
  qed
  then have "stops_empty
     (pre [Progress ''Fetching remote branches...'']
        (case r of Inl x \<Rightarrow> (evs, Uncaught x)
         | Inr ok \<Rightarrow> pre (evs @ (if ok then []
                       else [Err ''  Warning: git fetch failed, continuing without remote updates'']))
              (cli_6_number e fr root mb)))"
    by (rule stops_pre) (simp add: quiet_Progress)
  then show ?thesis by (simp add: cli_5_fetch_def g)
qed

lemma stops_4:
  assumes s: "sanitize_feature_name_default fr = []"
  shows "stops_empty (cli_4_claude e fr root mb)"
proof -
  obtain evs r where g: "is_claude_code_installed e = (evs, r)" by (cases "is_claude_code_installed e")
  then have q: "quiet evs"
    by (auto simp: is_claude_code_installed_def Let_def is_worktree_add_def)
  show ?thesis
  proof (cases r)
    case (Inl x)
    then show ?thesis using q g by (simp add: cli_4_claude_def stops_stop early_def)
  next
    case (Inr v)
    then show ?thesis using q g
      by (simp add: cli_4_claude_def stops_stop early_def stops_pre stops_5 [OF s] quiet_Progress)
  qed
qed

lemma stops_3:
  assumes s: "sanitize_feature_name_default fr = []"
  shows "stops_empty (cli_3_spec_kit e fr root mb)"
proof -
  obtain evs r where g: "is_spec_kit_initialized e root mb = (evs, r)"
    by (cases "is_spec_kit_initialized e root mb")
  with spec_kit_events [of e root mb] have q: "quiet evs" by simp
  show ?thesis
  proof (cases r)
    case (Inl x)
    then show ?thesis using q g by (simp add: cli_3_spec_kit_def stops_stop early_def)
  next
    case (Inr v)
    then show ?thesis using q g
      by (simp add: cli_3_spec_kit_def stops_stop early_def stops_pre stops_4 [OF s] quiet_Progress)
  qed
qed

lemma stops_main_branch:
  assumes s: "sanitize_feature_name_default fr = []"
  shows "stops_empty (cli_main_branch e fr root)"
proof -
  obtain evs r where g: "get_main_branch e = (evs, r)" by (cases "get_main_branch e")
  then have q: "quiet evs"
    by (auto simp: get_main_branch_def Let_def is_worktree_add_def split: proc_result.splits if_splits)
  show ?thesis
  proof (cases r)
    case (Inl x)
    then show ?thesis using q g by (cases x) (simp_all add: cli_main_branch_def stops_stop early_def)
  next
    case (Inr v)
    then show ?thesis using q g by (simp add: cli_main_branch_def stops_pre stops_3 [OF s])
  qed
qed

lemma stops_repo_root:
  assumes s: "sanitize_feature_name_default fr = []"
  shows "stops_empty (cli_repo_root e fr)"
proof -
  obtain evs r where g: "get_repo_root e = (evs, r)" by (cases "get_repo_root e")
  then have q: "quiet evs" by (auto simp: get_repo_root_def Let_def is_worktree_add_def)
  show ?thesis
  proof (cases r)
    case (Inl x)
    then show ?thesis using q g by (cases x) (simp_all add: cli_repo_root_def stops_stop early_def)
  next
    case (Inr v)
    then show ?thesis using q g
      by (simp add: cli_repo_root_def stops_pre stops_main_branch [OF s] quiet_Progress)
  qed
qed

lemma stops_2:
  assumes s: "sanitize_feature_name_default fr = []"
  shows "stops_empty (cli_2_repository e fr)"
proof -
  obtain evs r where g: "is_git_repository e (cwd e) = (evs, r)" by (cases "is_git_repository e (cwd e)")
  then have q: "quiet evs" by (auto simp: is_git_repository_def Let_def is_worktree_add_def)
  show ?thesis
  proof (cases r)
    case (Inl x)
    then show ?thesis using q g by (simp add: cli_2_repository_def stops_stop early_def)
  next
    case (Inr v)
    then show ?thesis using q g
      by (simp add: cli_2_repository_def stops_stop early_def stops_pre stops_repo_root [OF s])
  qed
qed

lemma stops_1:
  assumes s: "sanitize_feature_name_default fr = []"
  shows "stops_empty (cli_1_git e fr)"
proof -
  obtain evs r where g: "validate_git_installed e = (evs, r)" by (cases "validate_git_installed e")
  then have q: "quiet evs" by (auto simp: validate_git_installed_def Let_def is_worktree_add_def)
  show ?thesis
  proof (cases r)
    case (Inl x)
    then show ?thesis using q g by (simp add: cli_1_git_def stops_stop early_def)
  next
    case (Inr v)
    then show ?thesis using q g
      by (simp add: cli_1_git_def stops_stop early_def stops_pre stops_2 [OF s] quiet_Progress)
  qed
qed

lemma stops_cli:
  assumes s: "sanitize_feature_name_default fr = []" and nb: "\<not> (fr = [] \<or> strip_ws fr = [])"
  shows "stops_empty (cli e fr)"
proof -
  from nb have "cli e fr = pre [Progress ''Validating prerequisites...''] (cli_1_git e fr)"
    by (simp add: cli_def)
  then show ?thesis using stops_1 [OF s, of e] by (simp add: stops_pre quiet_Progress)
qed

lemma calls_up_to_allocation:
  assumes p: "prefix cs pipeline_calls" and l: "C_list_all_branches \<in> set cs"
    and c: "C_create_worktree \<notin> set cs"
  shows "cs = [C_validate_git_installed, C_is_git_repository, C_get_repo_root, C_get_main_branch,
               C_is_spec_kit_initialized, C_is_claude_code_installed, C_git_fetch, C_list_all_branches]"
proof -
  from p have "cs \<in> set (prefixes pipeline_calls)" by (simp only: in_set_prefixes)
  with l c show ?thesis by (auto simp: pipeline_calls_def)
qed

subsection \<open>Claims on cli.py\<close>

text \<open>
  Claim C2, as stated: whenever the provisioning of the worktree fails with the error of
  \<open>create_worktree\<close>, the run halts without launching the assistant and the process exits
  with the code 4. The code exits with the code 2: here the branch exists already.
\<close>

theorem provisioning_failure_exit_counterexample:
  "Run None add_feature_argv \<in> set (fst (cli branch_exists ''add feature'')) \<and>
   raises_provisioning_error (run branch_exists None add_feature_argv) \<and>
   snd (cli branch_exists ''add feature'') = Exit 2 \<and>
   snd (cli branch_exists ''add feature'') \<noteq> Exit 4"
proof -
  have "snd (cli branch_exists ''add feature'') = Exit 2" by code_simp
  moreover have "Run None add_feature_argv \<in> set (fst (cli branch_exists ''add feature''))" by code_simp
  moreover have "raises_provisioning_error (run branch_exists None add_feature_argv)" by code_simp
  ultimately show ?thesis by simp
qed

text \<open>
  Claim C2, amended. \<open>create_worktree\<close> raises its \<open>RuntimeError\<close> exactly when the command
  that adds the worktree ends with a non-zero return code (a branch or a destination that
  exists, a permission denied, any other failure of the tool), is not found or times out.
  Whenever a run has run this command and it failed so, the run halts without launching the
  assistant and the process exits with the code 2.
\<close>

theorem provisioning_failure_exits_2:
  "(raises_provisioning_error (run e None [''git'', ''worktree'', ''add'', path_str p, ''-b'', b, base]) \<longleftrightarrow>
      (\<exists>m. snd (create_worktree e p b base) = Inl (RuntimeError m))) \<and>
   (Run None argv \<in> set (fst (cli e fr)) \<longrightarrow> is_worktree_add argv \<longrightarrow>
      raises_provisioning_error (run e None argv) \<longrightarrow>
      snd (cli e fr) = Exit 2 \<and> C_launch_claude_code \<notin> set (calls (fst (cli e fr))))"
proof
  show "raises_provisioning_error (run e None [''git'', ''worktree'', ''add'', path_str p, ''-b'', b, base]) \<longleftrightarrow>
      (\<exists>m. snd (create_worktree e p b base) = Inl (RuntimeError m))"
    by (auto simp: create_worktree_def Let_def raises_provisioning_error_def split: proc_result.splits)
  show "Run None argv \<in> set (fst (cli e fr)) \<longrightarrow> is_worktree_add argv \<longrightarrow>
      raises_provisioning_error (run e None argv) \<longrightarrow>
      snd (cli e fr) = Exit 2 \<and> C_launch_claude_code \<notin> set (calls (fst (cli e fr)))"
    using run_ok_cli [of e fr] unfolding run_ok_def tail_ok_def by blast
qed

theorem provisioning_failure_exits_2_witness:
  "snd (cli worktree_times_out ''add feature'') = Exit 2 \<and>
   C_launch_claude_code \<notin> set (calls (fst (cli worktree_times_out ''add feature'')))"
proof -
  have 1: "Run None add_feature_argv \<in> set (fst (cli worktree_times_out ''add feature''))" by code_simp
  have 2: "is_worktree_add add_feature_argv" by code_simp
  have 3: "raises_provisioning_error (run worktree_times_out None add_feature_argv)" by code_simp
  from provisioning_failure_exits_2 [of worktree_times_out "[]" "[]" "[]" add_feature_argv "''add feature''"]
    1 2 3 show ?thesis by blast
qed

text \<open>
  Claim C4. The pipeline evaluates its four checks in the fixed order: the version-control
  tool is installed, the current directory is inside a working tree, the scaffold is
  complete on the base branch, the assistant is installed. It is fail-fast: when a check
  fails, the checks evaluated are the checks up to this one, the process exits with the
  code 1, and the last two lines written to the error stream are the diagnostic of the
  failing check: the line \<open>Error:\<close> with its message and the indented line of its
  suggestion. The lines of the first, the second and the fourth check are fixed; those of
  the third check are the message and the suggestion of its result, neither of them
  empty. If the first check fails, no other collaborator is called.
\<close>

theorem validation_is_fail_fast:
  "prefix (checks (fst (cli e fr)))
     [C_validate_git_installed, C_is_git_repository, C_is_spec_kit_initialized,
      C_is_claude_code_installed] \<and>
   (\<not> (fr = [] \<or> strip_ws fr = []) \<longrightarrow>
    snd (validate_git_installed e) = Inr v1 \<longrightarrow>
      (if \<not> passed v1
       then snd (cli e fr) = Exit 1 \<and> checks (fst (cli e fr)) = [C_validate_git_installed] \<and>
            calls (fst (cli e fr)) = [C_validate_git_installed] \<and>
            (\<exists>evs. fst (cli e fr) = evs @ [Err ''Error: Git is not installed or not in PATH'',
               Err ''  Install git: https://git-scm.com/downloads''])
       else (snd (is_git_repository e (cwd e)) = Inr False \<longrightarrow>
               snd (cli e fr) = Exit 1 \<and>
               checks (fst (cli e fr)) = [C_validate_git_installed, C_is_git_repository] \<and>
               (\<exists>evs. fst (cli e fr) = evs @ [Err ''Error: Not in a git repository'',
                  Err (''  Run '' @ [CHR 0x27] @ ''git init'' @ [CHR 0x27] @
                       '' or navigate to an existing repository'')])) \<and>
            (snd (is_git_repository e (cwd e)) = Inr True \<longrightarrow>
             snd (get_repo_root e) = Inr root \<longrightarrow> snd (get_main_branch e) = Inr mb \<longrightarrow>
             snd (is_spec_kit_initialized e root mb) = Inr v3 \<longrightarrow>
               (if \<not> passed v3
                then snd (cli e fr) = Exit 1 \<and>
                     checks (fst (cli e fr)) =
                       [C_validate_git_installed, C_is_git_repository, C_is_spec_kit_initialized] \<and>
                     (\<exists>m s. error_message v3 = Some m \<and> m \<noteq> [] \<and> suggestion v3 = Some s \<and> s \<noteq> [] \<and>
                        (\<exists>evs. fst (cli e fr) = evs @ [Err (''Error: '' @ m), Err (''  '' @ s)]))
                else (snd (is_claude_code_installed e) = Inr v4 \<longrightarrow> \<not> passed v4 \<longrightarrow>
                        snd (cli e fr) = Exit 1 \<and>
                        checks (fst (cli e fr)) =
                          [C_validate_git_installed, C_is_git_repository, C_is_spec_kit_initialized,
                           C_is_claude_code_installed] \<and>
                        (\<exists>evs. fst (cli e fr) = evs @ [Err ''Error: Claude Code not found in PATH'',
                           Err ''  Install Claude Code or add to PATH'']))))))"
  using checks_in_order [of e fr] fails_1 [of fr e v1] fails_2 [of fr e v1]
    fails_3 [of fr e v1 root mb v3] fails_4 [of fr e v1 root mb v3 v4]
    fails_1_lines [of fr e v1] fails_3_lines [of fr e v1 root mb v3]
    fails_4_lines [of fr e v1 root mb v3 v4]
  by (simp add: checks_def is_check_def)

theorem validation_is_fail_fast_witness:
  "snd (cli git_missing ''add feature'') = Exit 1 \<and>
   checks (fst (cli git_missing ''add feature'')) = [C_validate_git_installed] \<and>
   snd (cli outside_repository ''add feature'') = Exit 1 \<and>
   checks (fst (cli outside_repository ''add feature'')) =
     [C_validate_git_installed, C_is_git_repository] \<and>
   snd (cli scaffold_missing ''add feature'') = Exit 1 \<and>
   checks (fst (cli scaffold_missing ''add feature'')) =
     [C_validate_git_installed, C_is_git_repository, C_is_spec_kit_initialized] \<and>
   (\<exists>evs. fst (cli scaffold_missing ''add feature'') =
      evs @ [Err ''Error: Spec Kit not found on main branch'',
             Err (''  Ensure Spec Kit is initialized and committed to main branch '' @
                  ''before creating feature worktrees'')]) \<and>
   snd (cli claude_missing ''add feature'') = Exit 1 \<and>
   checks (fst (cli claude_missing ''add feature'')) =
     [C_validate_git_installed, C_is_git_repository, C_is_spec_kit_initialized,
      C_is_claude_code_installed]"
proof -
  let ?ok = "\<lparr>check_name = ''git_installed'', passed = True, error_message = None, suggestion = None\<rparr>"
  let ?kit = "\<lparr>check_name = ''spec_kit_on_main'', passed = True, error_message = None, suggestion = None\<rparr>"
  have nb: "\<not> (''add feature'' = [] \<or> strip_ws ''add feature'' = [])" by code_simp
  let ?nogit = "\<lparr>check_name = ''git_installed'', passed = False,
           error_message = Some ''Git is not installed or not in PATH'',
           suggestion = Some ''Install git: https://git-scm.com/downloads''\<rparr>"
  have a: "snd (validate_git_installed git_missing) = Inr ?nogit" by code_simp
  have b1: "snd (validate_git_installed scaffold_missing) = Inr ?ok" by code_simp
  have b2: "snd (is_git_repository scaffold_missing (cwd scaffold_missing)) = Inr True" by code_simp
  have b3: "snd (get_repo_root scaffold_missing) = Inr [''/'', ''repo'']" by code_simp
  have b4: "snd (get_main_branch scaffold_missing) = Inr ''main''" by code_simp
  let ?nokit = "\<lparr>check_name = ''spec_kit_on_main'', passed = False,
           error_message = Some ''Spec Kit not found on main branch'',
           suggestion = Some (''Ensure Spec Kit is initialized and committed to main branch '' @
                              ''before creating feature worktrees'')\<rparr>"
  let ?noclaude = "\<lparr>check_name = ''claude_code_installed'', passed = False,
           error_message = Some ''Claude Code not found in PATH'',
           suggestion = Some ''Install Claude Code or add to PATH''\<rparr>"
  have b5: "snd (is_spec_kit_initialized scaffold_missing [''/'', ''repo''] ''main'') = Inr ?nokit"
    by code_simp
  have c1: "snd (validate_git_installed outside_repository) = Inr ?ok" by code_simp
  have c2: "snd (is_git_repository outside_repository (cwd outside_repository)) = Inr False"
    by code_simp
  have d1: "snd (validate_git_installed claude_missing) = Inr ?ok" by code_simp
  have d2: "snd (is_git_repository claude_missing (cwd claude_missing)) = Inr True" by code_simp
  have d3: "snd (get_repo_root claude_missing) = Inr [''/'', ''repo'']" by code_simp
  have d4: "snd (get_main_branch claude_missing) = Inr ''main''" by code_simp
  have d5: "snd (is_spec_kit_initialized claude_missing [''/'', ''repo''] ''main'') = Inr ?kit"
    by code_simp
  have d6: "snd (is_claude_code_installed claude_missing) = Inr ?noclaude" by code_simp
  from validation_is_fail_fast [of git_missing "''add feature''" ?nogit "[''/'', ''repo'']" "''main''" ?kit ?noclaude] nb a
  have 1: "snd (cli git_missing ''add feature'') = Exit 1 \<and>
      checks (fst (cli git_missing ''add feature'')) = [C_validate_git_installed]"
    by simp
  from validation_is_fail_fast [of outside_repository "''add feature''" ?ok "[''/'', ''repo'']" "''main''" ?kit ?noclaude] nb c1 c2
  have 2: "snd (cli outside_repository ''add feature'') = Exit 1 \<and>
      checks (fst (cli outside_repository ''add feature'')) =
        [C_validate_git_installed, C_is_git_repository]"
    by simp
  from validation_is_fail_fast [of scaffold_missing "''add feature''" ?ok "[''/'', ''repo'']" "''main''" ?nokit ?noclaude]
    nb b1 b2 b3 b4 b5
  have 3: "snd (cli scaffold_missing ''add feature'') = Exit 1 \<and>
      checks (fst (cli scaffold_missing ''add feature'')) =
        [C_validate_git_installed, C_is_git_repository, C_is_spec_kit_initialized] \<and>
      (\<exists>evs. fst (cli scaffold_missing ''add feature'') =
         evs @ [Err ''Error: Spec Kit not found on main branch'',
                Err (''  Ensure Spec Kit is initialized and committed to main branch '' @
                     ''before creating feature worktrees'')])"
    by simp
  from validation_is_fail_fast [of claude_missing "''add feature''" ?ok "[''/'', ''repo'']" "''main''" ?kit ?noclaude]
    nb d1 d2 d3 d4 d5 d6
  have 4: "snd (cli claude_missing ''add feature'') = Exit 1 \<and>
      checks (fst (cli claude_missing ''add feature'')) =
        [C_validate_git_installed, C_is_git_repository, C_is_spec_kit_initialized,
         C_is_claude_code_installed]"
    by simp
  from 1 2 3 4 show ?thesis by (intro conjI) (elim conjE, assumption)+
qed

text \<open>
  Claim C7, as stated: for every feature text whose sanitized form is empty, the input is
  rejected at once and the process exits with the code 3. The text is looked at after the
  prerequisites only: where the version-control tool is missing, the process exits with
  the code 1.
\<close>

theorem empty_identifier_exit_counterexample:
  "sanitize_feature_name_default ''!!!'' = [] \<and> snd (cli git_missing ''!!!'') = Exit 1 \<and>
   snd (cli git_missing ''!!!'') \<noteq> Exit 3"
proof -
  have "sanitize_feature_name_default ''!!!'' = []" by code_simp
  moreover have "snd (cli git_missing ''!!!'') = Exit 1" by code_simp
  ultimately show ?thesis by simp
qed

text \<open>
  Claim C7, amended. For every feature text whose sanitized form is empty, no run creates
  a worktree or launches the assistant, so no branch name with an empty fragment is used.
  A blank text is rejected at once: the run writes the three lines on the missing request
  and exits with the code 3, no collaborator called and no command run. A text that is not
  blank is rejected only at the construction of the request: a run that announces the
  feature number has called the collaborators up to the listing of the branches, its last
  lines are the announcement and the rejection, and it exits with the code 3; a run
  without the announcement was ended by an earlier step, with the code 1 or 2 or an
  exception that is not caught.
\<close>

theorem empty_identifier_is_rejected:
  "sanitize_feature_name_default fr = [] \<Longrightarrow>
   C_create_worktree \<notin> set (calls (fst (cli e fr))) \<and>
   C_launch_claude_code \<notin> set (calls (fst (cli e fr))) \<and>
   (if fr = [] \<or> strip_ws fr = []
    then cli e fr =
           ([Err ''Error: Feature request is required'',
             Err ''  Usage: spork <feature-request>'',
             Err (''  Example: spork '' @ [CHR 0x22] @ ''add user authentication'' @ [CHR 0x22])],
            Exit 3)
    else if \<exists>f. Progress (''Next feature number: '' @ f) \<in> set (fst (cli e fr))
    then snd (cli e fr) = Exit 3 \<and>
         calls (fst (cli e fr)) =
           [C_validate_git_installed, C_is_git_repository, C_get_repo_root, C_get_main_branch,
            C_is_spec_kit_initialized, C_is_claude_code_installed, C_git_fetch,
            C_list_all_branches] \<and>
         (\<exists>evs f m. fst (cli e fr) =
            evs @ [Progress (''Next feature number: '' @ f),
                   Err (''Error: Invalid feature request: '' @ m)])
    else snd (cli e fr) = Exit 1 \<or> snd (cli e fr) = Exit 2 \<or> (\<exists>x. snd (cli e fr) = Uncaught x))"
proof -
  assume s: "sanitize_feature_name_default fr = []"
  from run_ok_cli [of e fr] s
  have n: "C_create_worktree \<notin> set (calls (fst (cli e fr)))"
    "C_launch_claude_code \<notin> set (calls (fst (cli e fr)))"
    and p: "prefix (calls (fst (cli e fr))) pipeline_calls"
    unfolding run_ok_def rejects_empty_def tail_ok_def by blast+
  show ?thesis
  proof (cases "fr = [] \<or> strip_ws fr = []")
    case True
    then have "cli e fr =
           ([Err ''Error: Feature request is required'',
             Err ''  Usage: spork <feature-request>'',
             Err (''  Example: spork '' @ [CHR 0x22] @ ''add user authentication'' @ [CHR 0x22])],
            Exit 3)"
      by (simp add: cli_def)
    with True n show ?thesis by (simp only: if_True simp_thms)
  next
    case False
    note st = stops_cli [OF s False, of e]
    show ?thesis
    proof (cases "\<exists>f. Progress (''Next feature number: '' @ f) \<in> set (fst (cli e fr))")
      case a: True
      with st have r: "rejected_at_request (cli e fr)" by (simp only: stops_empty_def if_True)
      then have l: "C_list_all_branches \<in> set (calls (fst (cli e fr)))"
        and x: "snd (cli e fr) = Exit 3"
        and t: "\<exists>evs f m. fst (cli e fr) =
            evs @ [Progress (''Next feature number: '' @ f),
                   Err (''Error: Invalid feature request: '' @ m)]"
        unfolding rejected_at_request_def by simp_all
      from calls_up_to_allocation [OF p l n(1)] x t n False a show ?thesis
        by (simp only: if_True if_False simp_thms)
    next
      case b: False
      with st have "early (snd (cli e fr))" by (simp only: stops_empty_def if_False)
      then have "snd (cli e fr) = Exit 1 \<or> snd (cli e fr) = Exit 2 \<or> (\<exists>x. snd (cli e fr) = Uncaught x)"
        by (simp only: early_def)
      with n False b show ?thesis by (simp only: if_False simp_thms)
    qed
  qed
qed

theorem empty_identifier_is_rejected_witness:
  "cli healthy ''   '' =
     ([Err ''Error: Feature request is required'',
       Err ''  Usage: spork <feature-request>'',
       Err (''  Example: spork '' @ [CHR 0x22] @ ''add user authentication'' @ [CHR 0x22])],
      Exit 3) \<and>
   snd (cli healthy ''!!!'') = Exit 3 \<and>
   C_create_worktree \<notin> set (calls (fst (cli healthy ''!!!''))) \<and>
   calls (fst (cli healthy ''!!!'')) =
     [C_validate_git_installed, C_is_git_repository, C_get_repo_root, C_get_main_branch,
      C_is_spec_kit_initialized, C_is_claude_code_installed, C_git_fetch, C_list_all_branches] \<and>
   snd (cli git_missing ''!!!'') = Exit 1"
proof -
  have s0: "sanitize_feature_name_default ''   '' = []" by code_simp
  have b0: "''   '' = [] \<or> strip_ws ''   '' = []" by code_simp
  have s: "sanitize_feature_name_default ''!!!'' = []" by code_simp
  have nb: "\<not> (''!!!'' = [] \<or> strip_ws ''!!!'' = [])" by code_simp
  have "Progress (''Next feature number: '' @ ''003'') \<in> set (fst (cli healthy ''!!!''))" by code_simp
  then have p: "\<exists>f. Progress (''Next feature number: '' @ f) \<in> set (fst (cli healthy ''!!!''))"
    by (rule exI [of _ "''003''"])
  have q: "\<not> (\<exists>f. Progress (''Next feature number: '' @ f) \<in> set (fst (cli git_missing ''!!!'')))"
  proof -
    have "fst (cli git_missing ''!!!'') =
        [Progress ''Validating prerequisites...'', Call C_validate_git_installed,
         Run None [''git'', ''--version''], Err ''Error: Git is not installed or not in PATH'',
         Err ''  Install git: https://git-scm.com/downloads'']"
      by code_simp
    then show ?thesis by simp
  qed
  have o: "snd (cli git_missing ''!!!'') \<noteq> Exit 2" "\<And>x. snd (cli git_missing ''!!!'') \<noteq> Uncaught x"
  proof -
    have "snd (cli git_missing ''!!!'') = Exit 1" by code_simp
    then show "snd (cli git_missing ''!!!'') \<noteq> Exit 2" "\<And>x. snd (cli git_missing ''!!!'') \<noteq> Uncaught x"
      by simp_all
  qed
  from empty_identifier_is_rejected [OF s0, of healthy] b0
  have 1: "cli healthy ''   '' =
     ([Err ''Error: Feature request is required'',
       Err ''  Usage: spork <feature-request>'',
       Err (''  Example: spork '' @ [CHR 0x22] @ ''add user authentication'' @ [CHR 0x22])],
      Exit 3)"
    by (simp only: if_True simp_thms)
  from empty_identifier_is_rejected [OF s, of healthy] nb p
  have 2: "snd (cli healthy ''!!!'') = Exit 3 \<and>
      C_create_worktree \<notin> set (calls (fst (cli healthy ''!!!''))) \<and>
      calls (fst (cli healthy ''!!!'')) =
        [C_validate_git_installed, C_is_git_repository, C_get_repo_root, C_get_main_branch,
         C_is_spec_kit_initialized, C_is_claude_code_installed, C_git_fetch, C_list_all_branches]"
    by simp
  from empty_identifier_is_rejected [OF s, of git_missing] nb q o
  have 3: "snd (cli git_missing ''!!!'') = Exit 1"
    by (simp only: if_True if_False simp_thms)
  from 1 2 3 show ?thesis by (intro conjI) (elim conjE, assumption)+
qed

subsection \<open>The copy of the secret files\<close>

lemma attempts_files: "map fst (attempts e root wt fs files) = files"
  by (induction files arbitrary: fs) simp_all

lemma successes_failures_length:
  "length (successes as) + length (failures as) = length as"
  by (induction as) (auto simp: successes_def failures_def split: option.splits)

lemma successes_Cons:
  "successes ((f, None) # as) = f # successes as"
  "successes ((f, Some x) # as) = successes as"
  "failures ((f, None) # as) = failures as"
  "failures ((f, Some x) # as) = (f, x) # failures as"
  "successes [] = []" "failures [] = []"
  by (simp_all add: successes_def failures_def)

lemma copy_loop_attempts:
  "copy_loop e root wt files (fs, c, f, errs) =
     (fs_after e root wt fs files,
      c + int (length (successes (attempts e root wt fs files))),
      f + int (length (failures (attempts e root wt fs files))),
      errs @ map failure_message (failures (attempts e root wt fs files)))"
proof (induction files arbitrary: fs c f errs)
  case Nil
  then show ?case by (simp add: successes_Cons)
next
  case (Cons filepath rest)
  obtain r fs' where o: "copy_one e root wt fs filepath = (r, fs')"
    by (cases "copy_one e root wt fs filepath")
  show ?case
  proof (cases r)
    case None
    with o Cons.IH [of fs' "c + 1" f errs] show ?thesis by (simp add: successes_Cons)
  next
    case (Some x)
    with o Cons.IH [of fs' c "f + 1" "errs @ [''Failed to copy '' @ filepath @ '': '' @ exn_str x]"]
    show ?thesis by (simp add: successes_Cons failure_message_def)
  qed
qed

lemma is_dir_exists: "is_dir e fs p \<Longrightarrow> path_exists e fs p"
  by (auto simp: is_dir_def path_exists_def split: option.splits)

lemma copy_report:
  assumes "is_dir e fs wt" "snd (get_repo_root e) = Inr root" "discover_env_files e fs root = Inr files"
  shows "copy_env_files_to_worktree e fs wt =
     Inr (\<lparr>files_discovered = int (length files),
           files_copied = int (length (successes (attempts e root wt fs files))),
           files_failed = int (length (failures (attempts e root wt fs files))),
           errors = map failure_message (failures (attempts e root wt fs files))\<rparr>,
          fs_after e root wt fs files)"
proof -
  have "length (successes (attempts e root wt fs files)) + length (failures (attempts e root wt fs files))
      = length files"
    using successes_failures_length [of "attempts e root wt fs files"]
      arg_cong [OF attempts_files [of e root wt fs files], of length] by simp
  then show ?thesis
    using assms is_dir_exists [OF assms(1)]
    by (simp add: copy_env_files_to_worktree_def copy_loop_attempts EnvFileCopyResult_new_def)
qed

lemma copy_result_cases:
  assumes "copy_env_files_to_worktree e fs wt = Inr (r, fs')"
  shows "\<exists>root files. is_dir e fs wt \<and> snd (get_repo_root e) = Inr root \<and>
           discover_env_files e fs root = Inr files"
  using assms
  by (auto simp: copy_env_files_to_worktree_def split: if_splits sum.splits exn.splits prod.splits)

lemma nm_write_file: "write_file n p s = Inr n' \<Longrightarrow> nm n' = nm n"
  by (induction n p s rule: write_file.induct) (auto split: option.splits sum.splits if_splits)

lemma find_replaced:
  "find (\<lambda>k. nm k = x) kids = Some k \<Longrightarrow> nm k' = x \<Longrightarrow>
   find (\<lambda>k. nm k = x) (map (\<lambda>j. if nm j = x then k' else j) kids) = Some k'"
  by (induction kids) (auto split: if_splits)

lemma find_appended:
  "find P kids = None \<Longrightarrow> P k \<Longrightarrow> find P (kids @ [k]) = Some k"
  by (induction kids) (auto split: if_splits)

lemma find_name_eq: "find (\<lambda>j. nm j = x) kids = Some k \<Longrightarrow> nm k = x"
  by (induction kids) (auto split: if_splits)

lemma lookup_write_file:
  "write_file n p s = Inr n' \<Longrightarrow> \<exists>f w. lookup n' p = Some (File f (Inr s) w)"
proof (induction n p s arbitrary: n' rule: write_file.induct)
  case (1 d w kids s)
  then show ?case by simp
next
  case (2 f c w s)
  then show ?case by (auto split: if_splits)
next
  case (3 f c w x xs s)
  then show ?case by simp
next
  case (4 d w kids x xs s)
  show ?case
  proof (cases "find (\<lambda>k. nm k = x) kids")
    case None
    with "4.prems" have n': "n' = Dir d w (kids @ [File x (Inr s) True])" and xs: "xs = []"
      by (auto split: if_splits)
    have "find (\<lambda>k. nm k = x) (kids @ [File x (Inr s) True]) = Some (File x (Inr s) True)"
      using None by (intro find_appended) simp_all
    with n' xs show ?thesis by auto
  next
    case (Some k)
    with "4.prems" obtain k' where k': "write_file k xs s = Inr k'"
      and n': "n' = Dir d w (map (\<lambda>j. if nm j = x then k' else j) kids)"
      by (auto split: sum.splits)
    from nm_write_file [OF k'] find_name_eq [OF Some] have "nm k' = x" by simp
    from find_replaced [OF Some this]
    have f: "find (\<lambda>k. nm k = x) (map (\<lambda>j. if nm j = x then k' else j) kids) = Some k'" .
    from "4.IH" [OF Some k'] obtain f' w' where "lookup k' xs = Some (File f' (Inr s) w')" by blast
    with f n' show ?thesis by simp
  qed
qed

lemma copy_one_writes:
  assumes "fst (copy_one e root wt fs filepath) = None"
  shows "read_text e (snd (copy_one e root wt fs filepath)) (joinpath wt filepath) =
           read_env_file_from_filesystem e fs root filepath \<and>
         (\<exists>content. read_env_file_from_filesystem e fs root filepath = Inr content)"
proof -
  from assms obtain content fs1 fs2 where
    r: "read_env_file_from_filesystem e fs root filepath = Inr content" and
    m: "mkdir_p fs (absolute e (parent (joinpath wt filepath))) = Inr fs1" and
    w: "write_file fs1 (absolute e (joinpath wt filepath)) content = Inr fs2"
    by (auto simp: copy_one_def Let_def split: sum.splits)
  then have c: "copy_one e root wt fs filepath = (None, fs2)" by (simp add: copy_one_def Let_def)
  from lookup_write_file [OF w] obtain f wr where
    "lookup fs2 (absolute e (joinpath wt filepath)) = Some (File f (Inr content) wr)" by blast
  then have "read_text e fs2 (joinpath wt filepath) = Inr content" by (simp add: read_text_def)
  with r c show ?thesis by simp
qed

subsection \<open>The discovery of the secret files\<close>

lemma find_distinct_name:
  "distinct (map nm kids) \<Longrightarrow> k \<in> set kids \<Longrightarrow> find (\<lambda>j. nm j = nm k) kids = Some k"
  by (induction kids) auto

lemma find_name_Some: "find (\<lambda>j. nm j = x) kids = Some k \<Longrightarrow> k \<in> set kids \<and> nm k = x"
  by (induction kids) (auto split: if_splits)

lemma walk_Dir_iff:
  "(p, m) \<in> set (walk (Dir d w kids)) \<longleftrightarrow>
     (\<exists>k\<in>set kids. (p = [nm k] \<and> m = k) \<or> (\<exists>q. p = nm k # q \<and> (q, m) \<in> set (walk k)))"
  by auto

lemma walk_lookup:
  "wf_node n \<Longrightarrow> (p, m) \<in> set (walk n) \<Longrightarrow> p \<noteq> [] \<and> lookup n p = Some m"
proof (induction n arbitrary: p m)
  case (File f c w)
  then show ?case by simp
next
  case (Dir d w kids)
  from Dir.prems(2) obtain k where k: "k \<in> set kids"
    and c: "(p = [nm k] \<and> m = k) \<or> (\<exists>q. p = nm k # q \<and> (q, m) \<in> set (walk k))"
    unfolding walk_Dir_iff by blast
  from Dir.prems(1) k have wfk: "wf_node k" and f: "find (\<lambda>j. nm j = nm k) kids = Some k"
    by (auto simp: list_all_iff find_distinct_name)
  from c show ?case
  proof
    assume "p = [nm k] \<and> m = k"
    with f show ?thesis by simp
  next
    assume "\<exists>q. p = nm k # q \<and> (q, m) \<in> set (walk k)"
    then obtain q where q: "p = nm k # q" "(q, m) \<in> set (walk k)" by blast
    from Dir.IH [OF k wfk q(2)] have "lookup k q = Some m" by simp
    with f q(1) show ?thesis by simp
  qed
qed

lemma lookup_walk:
  "p \<noteq> [] \<Longrightarrow> lookup n p = Some m \<Longrightarrow> (p, m) \<in> set (walk n)"
proof (induction n p arbitrary: m rule: lookup.induct)
  case (1 n)
  then show ?case by simp
next
  case (2 f c w x xs)
  then show ?case by simp
next
  case (3 d w kids x xs)
  from "3.prems"(2) obtain k where f: "find (\<lambda>k. nm k = x) kids = Some k" and l: "lookup k xs = Some m"
    by (auto split: option.splits)
  from find_name_Some [OF f] have k: "k \<in> set kids" "nm k = x" by simp_all
  show ?case
  proof (cases "xs = []")
    case True
    with l have "m = k" by simp
    with k True show ?thesis unfolding walk_Dir_iff by blast
  next
    case False
    from "3.IH" [OF f False l] have "(xs, m) \<in> set (walk k)" .
    with k show ?thesis unfolding walk_Dir_iff by blast
  qed
qed

lemma lookup_append:
  "lookup n (p @ q) = (case lookup n p of None \<Rightarrow> None | Some d \<Rightarrow> lookup d q)"
  by (induction n p rule: lookup.induct) (auto split: option.splits)

lemma wf_lookup: "wf_node n \<Longrightarrow> lookup n p = Some d \<Longrightarrow> wf_node d"
proof (induction n p rule: lookup.induct)
  case (1 n)
  then show ?case by simp
next
  case (2 f c w x xs)
  then show ?case by simp
next
  case (3 d' w kids x xs)
  from "3.prems"(2) obtain k where f: "find (\<lambda>k. nm k = x) kids = Some k" and l: "lookup k xs = Some d"
    by (auto split: option.splits)
  from find_name_Some [OF f] "3.prems"(1) have "wf_node k" by (auto simp: list_all_iff)
  from "3.IH" [OF f this l] show ?case .
qed

lemma walk_hd_valid:
  "wf_node n \<Longrightarrow> (p, m) \<in> set (walk n) \<Longrightarrow> valid_name (hd p)"
  by (cases n) (auto simp: list_all_iff)

lemma valid_not_anchor: "valid_name x \<Longrightarrow> \<not> is_anchor x"
  by (auto simp: is_anchor_def)

lemma absolute_append:
  "rel \<noteq> [] \<Longrightarrow> \<not> is_anchor (hd rel) \<Longrightarrow> absolute e (ws @ rel) = absolute e ws @ rel"
  by (cases ws; cases rel) (auto simp: absolute_def Let_def split: list.splits)

lemma discover_loop_spec:
  "\<forall>fp\<in>set paths. take (length ws) fp = ws \<Longrightarrow>
   discover_loop e fs ws paths acc =
     Inr (acc @ map (\<lambda>fp. path_str (drop (length ws) fp))
                  (filter (\<lambda>fp. \<not> (''.git'' \<in> set fp \<or> ''.worktrees'' \<in> set fp) \<and> is_file e fs fp) paths))"
  by (induction paths arbitrary: acc) (auto simp: relative_to_def)

lemma discover_set:
  assumes d: "lookup fs (absolute e ws) = Some (Dir dn w kids)" and wf: "wf_node fs"
  shows "\<exists>files. discover_env_files e fs ws = Inr files \<and> sorted files \<and>
     set files = {path_str rel |rel. rel \<noteq> [] \<and> \<not> is_anchor (hd rel) \<and> is_file e fs (ws @ rel) \<and>
                    starts_with ''.env'' (last rel) \<and>
                    ''.git'' \<notin> set (ws @ rel) \<and> ''.worktrees'' \<notin> set (ws @ rel)}"
proof -
  let ?d = "Dir dn w kids"
  let ?keep = "\<lambda>fp. \<not> (''.git'' \<in> set fp \<or> ''.worktrees'' \<in> set fp) \<and> is_file e fs fp"
  let ?paths = "map (\<lambda>(rel, m). ws @ rel) (filter (\<lambda>(rel, m). starts_with ''.env'' (last rel)) (walk ?d))"
  let ?found = "map (\<lambda>fp. path_str (drop (length ws) fp)) (filter ?keep ?paths)"
  have wfd: "wf_node ?d" using wf d by (rule wf_lookup)
  have r: "rglob_env e fs ws = ?paths" by (simp add: rglob_env_def d)
  have "\<forall>fp\<in>set ?paths. take (length ws) fp = ws" by auto
  from discover_loop_spec [OF this, of e fs "[]"]
  have l: "discover_loop e fs ws ?paths [] = Inr ?found" by simp
  have dis: "discover_env_files e fs ws = Inr (sort ?found)"
    unfolding discover_env_files_def r l using d by (simp add: path_exists_def is_dir_def)
  have file_at: "is_file e fs (ws @ rel) \<longleftrightarrow> (\<exists>f c w. lookup ?d rel = Some (File f c w))"
    if "rel \<noteq> []" "\<not> is_anchor (hd rel)" for rel
    using absolute_append [OF that, of e ws] d
    by (auto simp: is_file_def lookup_append split: option.splits node.splits)
  have found: "set ?found = {path_str rel |rel m. (rel, m) \<in> set (walk ?d) \<and>
       starts_with ''.env'' (last rel) \<and> ?keep (ws @ rel)}"
    by (force simp del: walk.simps)
  have "set ?found = {path_str rel |rel. rel \<noteq> [] \<and> \<not> is_anchor (hd rel) \<and> is_file e fs (ws @ rel) \<and>
                    starts_with ''.env'' (last rel) \<and>
                    ''.git'' \<notin> set (ws @ rel) \<and> ''.worktrees'' \<notin> set (ws @ rel)}"
    (is "_ = ?R")
  proof
    show "set ?found \<subseteq> ?R"
    proof
      fix s assume "s \<in> set ?found"
      then obtain rel m where w: "(rel, m) \<in> set (walk ?d)" and st: "starts_with ''.env'' (last rel)"
        and k: "?keep (ws @ rel)" and s: "s = path_str rel"
        unfolding found by blast
      from walk_lookup [OF wfd w] have "rel \<noteq> []" by simp
      moreover from walk_hd_valid [OF wfd w] have "\<not> is_anchor (hd rel)" by (rule valid_not_anchor)
      ultimately show "s \<in> ?R" using k st s by blast
    qed
    show "?R \<subseteq> set ?found"
    proof
      fix s assume "s \<in> ?R"
      then obtain rel where rel: "rel \<noteq> []" "\<not> is_anchor (hd rel)" "is_file e fs (ws @ rel)"
        "starts_with ''.env'' (last rel)"
        "''.git'' \<notin> set (ws @ rel)" "''.worktrees'' \<notin> set (ws @ rel)" and s: "s = path_str rel"
        by blast
      from file_at [OF rel(1,2)] rel(3) obtain f c w' where "lookup ?d rel = Some (File f c w')" by blast
      from lookup_walk [OF rel(1) this] have "(rel, File f c w') \<in> set (walk ?d)" .
      with rel s show "s \<in> set ?found" unfolding found by blast
    qed
  qed
  with dis show ?thesis by (intro exI [of _ "sort ?found"]) simp
qed

lemma walk_names_valid:
  "wf_node n \<Longrightarrow> (p, m) \<in> set (walk n) \<Longrightarrow> list_all valid_name p"
proof (induction n arbitrary: p m)
  case (File f c w)
  then show ?case by simp
next
  case (Dir d w kids)
  from Dir.prems(2) obtain k where k: "k \<in> set kids"
    and c: "(p = [nm k] \<and> m = k) \<or> (\<exists>q. p = nm k # q \<and> (q, m) \<in> set (walk k))"
    unfolding walk_Dir_iff by blast
  from Dir.prems(1) k have wfk: "wf_node k" and v: "valid_name (nm k)"
    by (auto simp: list_all_iff)
  from c show ?case
  proof
    assume "p = [nm k] \<and> m = k"
    with v show ?thesis by simp
  next
    assume "\<exists>q. p = nm k # q \<and> (q, m) \<in> set (walk k)"
    then obtain q where q: "p = nm k # q" "(q, m) \<in> set (walk k)" by blast
    from Dir.IH [OF k wfk q(2)] v q(1) show ?thesis by simp
  qed
qed

lemma walk_paths_nonempty: "(p, m) \<in> set (walk n) \<Longrightarrow> p \<noteq> []"
  by (cases n) auto

lemma paths_below_Dir:
  "paths_below (Dir d w kids) =
     concat (map (\<lambda>k. [nm k] # map ((#) (nm k)) (paths_below k)) kids)"
  by (simp add: paths_below_def map_concat comp_def case_prod_unfold)

lemma distinct_kid_paths:
  assumes "distinct (map nm kids)" "\<And>k. k \<in> set kids \<Longrightarrow> distinct (paths_below k)"
  shows "distinct (concat (map (\<lambda>k. [nm k] # map ((#) (nm k)) (paths_below k)) kids))"
  using assms
proof (induction kids)
  case Nil
  then show ?case by simp
next
  case (Cons k kids)
  have ne: "[] \<notin> set (paths_below k)"
    by (auto simp: paths_below_def dest: walk_paths_nonempty)
  have 1: "distinct ([nm k] # map ((#) (nm k)) (paths_below k))"
    using Cons.prems(2) [of k] ne by (auto simp: distinct_map)
  have 2: "distinct (concat (map (\<lambda>k. [nm k] # map ((#) (nm k)) (paths_below k)) kids))"
    using Cons.prems by (intro Cons.IH) auto
  have 3: "set ([nm k] # map ((#) (nm k)) (paths_below k)) \<inter>
           set (concat (map (\<lambda>k. [nm k] # map ((#) (nm k)) (paths_below k)) kids)) = {}"
    using Cons.prems(1) by auto
  from 1 2 3 show ?case by (simp only: list.map concat.simps distinct_append)
qed

lemma distinct_paths_below: "wf_node n \<Longrightarrow> distinct (paths_below n)"
proof (induction n)
  case (File f c w)
  then show ?case by (simp add: paths_below_def)
next
  case (Dir d w kids)
  then show ?case
    unfolding paths_below_Dir by (intro distinct_kid_paths) (auto simp: list_all_iff)
qed

lemma split_on_append_sep:
  "sep \<notin> set x \<Longrightarrow> split_on sep (x @ sep # rest) = x # split_on sep rest"
  by (induction x) auto

lemma split_on_join:
  "xs \<noteq> [] \<Longrightarrow> \<forall>x\<in>set xs. CHR ''/'' \<notin> set x \<Longrightarrow> split_on CHR ''/'' (join ''/'' xs) = xs"
proof (induction "''/''" xs rule: join.induct)
  case 1
  then show ?case by simp
next
  case (2 x)
  then show ?case by (simp add: split_on_no_sep)
next
  case (3 x y ys)
  then show ?case by (simp add: split_on_append_sep)
qed

lemma path_str_inj:
  assumes "p \<noteq> []" "q \<noteq> []" "list_all valid_name p" "list_all valid_name q"
    and "path_str p = path_str q"
  shows "p = q"
proof -
  have "path_str r = join ''/'' r" if "r \<noteq> []" "list_all valid_name r" for r
    using that by (cases r) (auto simp: path_str_def is_anchor_def)
  with assms have "join ''/'' p = join ''/'' q" by simp
  then have "split_on CHR ''/'' (join ''/'' p) = split_on CHR ''/'' (join ''/'' q)" by simp
  then show ?thesis
    using assms(1-4) by (simp add: split_on_join list_all_iff)
qed

lemma discover_distinct:
  assumes d: "lookup fs (absolute e ws) = Some (Dir dn w kids)" and wf: "wf_node fs"
    and dis: "discover_env_files e fs ws = Inr files"
  shows "distinct files"
proof -
  let ?d = "Dir dn w kids"
  let ?keep = "\<lambda>fp. \<not> (''.git'' \<in> set fp \<or> ''.worktrees'' \<in> set fp) \<and> is_file e fs fp"
  let ?paths = "map (\<lambda>(rel, m). ws @ rel) (filter (\<lambda>(rel, m). starts_with ''.env'' (last rel)) (walk ?d))"
  let ?found = "map (\<lambda>fp. path_str (drop (length ws) fp)) (filter ?keep ?paths)"
  let ?xs = "filter (\<lambda>(rel, m). ?keep (ws @ rel)) (filter (\<lambda>(rel, m). starts_with ''.env'' (last rel)) (walk ?d))"
  have wfd: "wf_node ?d" using wf d by (rule wf_lookup)
  have r: "rglob_env e fs ws = ?paths" by (simp add: rglob_env_def d)
  have "\<forall>fp\<in>set ?paths. take (length ws) fp = ws" by auto
  from discover_loop_spec [OF this, of e fs "[]"]
  have l: "discover_loop e fs ws ?paths [] = Inr ?found" by simp
  have "discover_env_files e fs ws = Inr (sort ?found)"
    unfolding discover_env_files_def r l using d by (simp add: path_exists_def is_dir_def)
  with dis have files: "files = sort ?found" by simp
  have f: "?found = map (path_str \<circ> fst) ?xs"
    by (simp add: filter_map comp_def case_prod_unfold del: walk.simps)
  have "distinct (map fst (walk ?d))"
    using distinct_paths_below [OF wfd] by (simp add: paths_below_def)
  then have dx: "distinct (map fst ?xs)" by (intro distinct_map_filter)
  then have 1: "distinct ?xs" and 2: "inj_on fst (set ?xs)" by (simp_all add: distinct_map)
  have 3: "inj_on path_str (fst ` set ?xs)"
  proof (rule inj_onI)
    fix p q assume p: "p \<in> fst ` set ?xs" and q: "q \<in> fst ` set ?xs" and pq: "path_str p = path_str q"
    from p obtain m where "(p, m) \<in> set (walk ?d)" by (auto simp del: walk.simps)
    then have pv: "p \<noteq> []" "list_all valid_name p"
      using walk_paths_nonempty walk_names_valid [OF wfd] by blast+
    from q obtain m' where "(q, m') \<in> set (walk ?d)" by (auto simp del: walk.simps)
    then have qv: "q \<noteq> []" "list_all valid_name q"
      using walk_paths_nonempty walk_names_valid [OF wfd] by blast+
    from path_str_inj [OF pv(1) qv(1) pv(2) qv(2) pq] show "p = q" .
  qed
  from 2 3 have "inj_on (path_str \<circ> fst) (set ?xs)" by (rule comp_inj_on)
  with 1 have "distinct (map (path_str \<circ> fst) ?xs)" by (simp add: distinct_map)
  then show ?thesis unfolding files f by simp
qed

subsection \<open>Claims on env_files.py\<close>



text \<open>
  Claim C10. Every report that \<open>copy_env_files_to_worktree\<close> returns satisfies
  \<open>files_copied + files_failed = files_discovered\<close> and \<open>len(errors) = files_failed\<close>: each
  discovered file adds one to exactly one of the two counters.
\<close>

theorem copy_report_counts:
  "copy_env_files_to_worktree e fs wt = Inr (r, fs') \<Longrightarrow>
   files_copied r + files_failed r = files_discovered r \<and> int (length (errors r)) = files_failed r"
proof -
  assume c: "copy_env_files_to_worktree e fs wt = Inr (r, fs')"
  from copy_result_cases [OF c] obtain root files where
    h: "is_dir e fs wt" "snd (get_repo_root e) = Inr root" "discover_env_files e fs root = Inr files"
    by blast
  have "length (successes (attempts e root wt fs files)) + length (failures (attempts e root wt fs files))
      = length files"
    using successes_failures_length [of "attempts e root wt fs files"]
      arg_cong [OF attempts_files [of e root wt fs files], of length] by simp
  with copy_report [OF h] c show ?thesis by auto
qed

theorem copy_report_counts_witness:
  "files_copied (fst (projr (copy_env_files_to_worktree healthy repo_fs first_worktree))) +
   files_failed (fst (projr (copy_env_files_to_worktree healthy repo_fs first_worktree))) = 4 \<and>
   length (errors (fst (projr (copy_env_files_to_worktree healthy repo_fs first_worktree)))) = 1"
proof -
  let ?c = "copy_env_files_to_worktree healthy repo_fs first_worktree"
  have "\<not> isl ?c" by code_simp
  then have c: "?c = Inr (fst (projr ?c), snd (projr ?c))" by (cases ?c) simp_all
  have d: "files_discovered (fst (projr ?c)) = 4" by code_simp
  have f: "files_failed (fst (projr ?c)) = 1" by code_simp
  from copy_report_counts [OF c] d f show ?thesis by simp
qed

text \<open>
  Claim C9, as stated: for every existing workspace directory, \<open>discover_env_files\<close> returns
  exactly the paths relative to the workspace of the regular files whose names begin with
  \<open>.env\<close>, leaving out every path with a component \<open>.git\<close> or \<open>.worktrees\<close>. The code tests
  the components of the whole path of the file, the workspace path included: for the
  workspace of a worktree, which lies below \<open>.worktrees\<close>, it returns no path, although
  the regular file \<open>.env\<close> is there and its relative path has no such component.
\<close>

theorem discover_env_files_counterexample:
  "is_dir healthy repo_fs first_worktree \<and>
   is_file healthy repo_fs (first_worktree @ [''.env'']) \<and>
   starts_with ''.env'' (last [''.env'']) \<and>
   ''.git'' \<notin> set [''.env''] \<and> ''.worktrees'' \<notin> set [''.env''] \<and>
   discover_env_files healthy repo_fs first_worktree = Inr [] \<and>
   discover_env_files healthy repo_fs first_worktree \<noteq> Inr [path_str [''.env'']]"
proof -
  have "is_dir healthy repo_fs first_worktree" by code_simp
  moreover have "is_file healthy repo_fs (first_worktree @ [''.env''])" by code_simp
  moreover have "starts_with ''.env'' (last [''.env''])" by code_simp
  moreover have "discover_env_files healthy repo_fs first_worktree = Inr []" by code_simp
  ultimately show ?thesis by simp
qed

text \<open>
  Claim C9, amended. For every workspace path that is an existing directory of a
  well-formed file system, \<open>discover_env_files\<close> returns, in ascending lexicographic order
  and each once, exactly the paths relative to the workspace of the regular files below it
  whose names begin with \<open>.env\<close>, leaving out every file whose path has a component \<open>.git\<close>
  or \<open>.worktrees\<close>; the path of a file is the path that the code tests, the workspace path
  followed by the relative path. For a workspace path without such a component, these are
  the components of the relative path, and the claim holds as stated.
\<close>

theorem discover_env_files_exact:
  "is_dir e fs ws \<Longrightarrow> wf_node fs \<Longrightarrow>
   \<exists>files. discover_env_files e fs ws = Inr files \<and> sorted files \<and> distinct files \<and>
     set files = {path_str rel |rel. rel \<noteq> [] \<and> \<not> is_anchor (hd rel) \<and> is_file e fs (ws @ rel) \<and>
                    starts_with ''.env'' (last rel) \<and>
                    ''.git'' \<notin> set (ws @ rel) \<and> ''.worktrees'' \<notin> set (ws @ rel)} \<and>
     (''.git'' \<notin> set ws \<and> ''.worktrees'' \<notin> set ws \<longrightarrow>
      set files = {path_str rel |rel. rel \<noteq> [] \<and> \<not> is_anchor (hd rel) \<and> is_file e fs (ws @ rel) \<and>
                    starts_with ''.env'' (last rel) \<and>
                    ''.git'' \<notin> set rel \<and> ''.worktrees'' \<notin> set rel})"
proof -
  assume d: "is_dir e fs ws" and wf: "wf_node fs"
  from d obtain dn w kids where l: "lookup fs (absolute e ws) = Some (Dir dn w kids)"
    by (auto simp: is_dir_def split: option.splits node.splits)
  from discover_set [OF l wf] obtain files where
    f: "discover_env_files e fs ws = Inr files" "sorted files"
    "set files = {path_str rel |rel. rel \<noteq> [] \<and> \<not> is_anchor (hd rel) \<and> is_file e fs (ws @ rel) \<and>
                    starts_with ''.env'' (last rel) \<and>
                    ''.git'' \<notin> set (ws @ rel) \<and> ''.worktrees'' \<notin> set (ws @ rel)}"
    by blast
  from discover_distinct [OF l wf f(1)] have "distinct files" .
  with f show ?thesis by (intro exI [of _ files]) auto
qed

theorem discover_env_files_exact_witness:
  "discover_env_files healthy repo_fs [''/'', ''repo''] =
     Inr [''.env'', ''.env.local'', ''backend/.env'', ''backend/.env.secret''] \<and>
   set [''.env'', ''.env.local'', ''backend/.env'', ''backend/.env.secret''] =
     {path_str rel |rel. rel \<noteq> [] \<and> \<not> is_anchor (hd rel) \<and>
        is_file healthy repo_fs ([''/'', ''repo''] @ rel) \<and> starts_with ''.env'' (last rel) \<and>
        ''.git'' \<notin> set rel \<and> ''.worktrees'' \<notin> set rel}"
proof -
  have d: "is_dir healthy repo_fs [''/'', ''repo'']" by code_simp
  have wf: "wf_node repo_fs" by code_simp
  have f: "discover_env_files healthy repo_fs [''/'', ''repo''] =
      Inr [''.env'', ''.env.local'', ''backend/.env'', ''backend/.env.secret'']"
    by code_simp
  from discover_env_files_exact [OF d wf] show ?thesis unfolding f by simp
qed

subsection \<open>The pipeline and the copy of the secret files\<close>

lemma cli_calls_no_copy: "C_copy_env_files_to_worktree \<notin> set (calls (fst (cli e fr)))"
proof -
  have "prefix (calls (fst (cli e fr))) pipeline_calls"
    using run_ok_cli [of e fr] by (simp add: run_ok_def tail_ok_def)
  then have "set (calls (fst (cli e fr))) \<subseteq> set pipeline_calls" by (rule set_mono_prefix)
  then show ?thesis by (auto simp: pipeline_calls_def)
qed

text \<open>
  Claim C1: in every successful run, the copy of the secret files is invoked on the new
  worktree before the assistant is launched, and the report of the run has \<open>files_copied\<close>
  equal to \<open>files_discovered\<close> when no copy fails. The code does not do this. In the healthy
  environment, with two secret files at the root of the repository, the run of \<open>cli\<close>
  succeeds: the worktree is created, the assistant is launched and its code 0 is the exit
  code. The collaborators called are the ten of the pipeline, the creation of the worktree
  directly followed by the launch; \<open>copy_env_files_to_worktree\<close> is not among them, so no
  file is copied and the run has no report. Called on the same repository and worktree,
  \<open>copy_env_files_to_worktree\<close> discovers and copies the two files: the function that the
  claim describes is there, and \<open>cli\<close> does not call it.
\<close>

theorem cli_skips_env_propagation:
  "snd (cli healthy ''add feature'') = Exit 0 \<and>
   calls (fst (cli healthy ''add feature'')) =
     [C_validate_git_installed, C_is_git_repository, C_get_repo_root, C_get_main_branch,
      C_is_spec_kit_initialized, C_is_claude_code_installed, C_git_fetch, C_list_all_branches,
      C_create_worktree, C_launch_claude_code] \<and>
   C_copy_env_files_to_worktree \<notin> set (calls (fst (cli healthy ''add feature''))) \<and>
   Run None add_feature_argv \<in> set (fst (cli healthy ''add feature'')) \<and>
   fst (projr (copy_env_files_to_worktree healthy two_env_fs new_worktree)) =
     \<lparr>files_discovered = 2, files_copied = 2, files_failed = 0, errors = []\<rparr>"
proof -
  have "snd (cli healthy ''add feature'') = Exit 0" by code_simp
  moreover have "calls (fst (cli healthy ''add feature'')) =
     [C_validate_git_installed, C_is_git_repository, C_get_repo_root, C_get_main_branch,
      C_is_spec_kit_initialized, C_is_claude_code_installed, C_git_fetch, C_list_all_branches,
      C_create_worktree, C_launch_claude_code]"
    by code_simp
  moreover have "Run None add_feature_argv \<in> set (fst (cli healthy ''add feature''))" by code_simp
  moreover have "fst (projr (copy_env_files_to_worktree healthy two_env_fs new_worktree)) =
     \<lparr>files_discovered = 2, files_copied = 2, files_failed = 0, errors = []\<rparr>"
    by code_simp
  ultimately show ?thesis by simp
qed

end
